theory Spec2Isabelle
  imports Main "HOL-Library.Sublist"
begin

section \<open>Data model of \<^verbatim>\<open>src/index.ts\<close>\<close>

text \<open>
  The items and events are the tagged unions \<^verbatim>\<open>ThreadItem\<close> and \<^verbatim>\<open>ThreadEvent\<close> that
  \<^verbatim>\<open>index.ts\<close> imports; the constructors carry the fields the program reads
  (\<^verbatim>\<open>formatItem\<close> and the \<^verbatim>\<open>switch\<close> of \<^verbatim>\<open>processEventsWithStallDetection\<close>).
  A status is kept as the string the program compares it with.
\<close>

datatype thread_item =
    AgentMessage string
  | Reasoning string
  | CommandExecution string string "int option"
  | FileChange "(string \<times> string) list" string
  | McpToolCall string string string
  | WebSearch string
  | TodoList "(string \<times> bool) list"
  | ErrorItem string

text \<open>The \<^verbatim>\<open>type\<close> tag of an item, as the program tests it (\<^verbatim>\<open>i.type === "agent_message"\<close>).\<close>

fun item_type :: "thread_item \<Rightarrow> string" where
  "item_type (AgentMessage t) = ''agent_message''"
| "item_type (Reasoning t) = ''reasoning''"
| "item_type (CommandExecution c s e) = ''command_execution''"
| "item_type (FileChange cs s) = ''file_change''"
| "item_type (McpToolCall server tool s) = ''mcp_tool_call''"
| "item_type (WebSearch q) = ''web_search''"
| "item_type (TodoList ts) = ''todo_list''"
| "item_type (ErrorItem m) = ''error''"

text \<open>\<^verbatim>\<open>i.status\<close>: only some variants have the field; elsewhere it is \<^verbatim>\<open>undefined\<close>.\<close>

fun item_status :: "thread_item \<Rightarrow> string option" where
  "item_status (CommandExecution c s e) = Some s"
| "item_status (FileChange cs s) = Some s"
| "item_status (McpToolCall server tool s) = Some s"
| "item_status _ = None"

record token_usage =
  input_tokens :: int
  output_tokens :: int

datatype thread_event =
    ThreadStarted string
  | TurnStarted
  | ItemStarted thread_item
  | ItemUpdated thread_item
  | ItemCompleted thread_item
  | TurnCompleted token_usage
  | TurnFailed string
  | ErrorEvent string

record recovery_info =
  attempted :: bool
  attempts :: int
  recovered :: bool
  lastError :: "string option"

record event_processing_result =
  items :: "thread_item list"
  threadId :: "string option"
  finalResponse :: string
  usage :: "token_usage option"
  stalled :: bool
  error :: "string option"

record recovery_result = event_processing_result +
  recoverySuccess :: bool

datatype result_level = PASS | FAIL | ERROR | TIMEOUT

section \<open>The event source\<close>

text \<open>
  An \<^verbatim>\<open>AsyncIterable<ThreadEvent>\<close> is consumed only through \<^verbatim>\<open>iterator.next()\<close>, each call
  raced against a timer of \<^verbatim>\<open>stallTimeoutMs\<close>. What the \<open>i\<close>-th race resolves to is one of:
  an event; the end of the stream (\<^verbatim>\<open>done\<close>); the timer firing first; \<^verbatim>\<open>next()\<close> rejecting
  with a message. A source is the sequence of these outcomes; it may deliver events for
  ever. Real time is not modelled: which side wins a race is part of the source.
\<close>

datatype next_result =
    Event thread_event
  | Finished
  | TimedOut
  | Threw string

type_synonym event_source = "nat \<Rightarrow> next_result"

text \<open>A source given by a finite script; once the script is used up the stream has ended.\<close>

definition script_source :: "next_result list \<Rightarrow> event_source" where
  "script_source script i = (if i < length script then script ! i else Finished)"

text \<open>
  Acquiring a source (\<^verbatim>\<open>codex.startThread(..).runStreamed(..)\<close>,
  \<^verbatim>\<open>codex.resumeThread(id).runStreamed(..)\<close>) either throws a message or gives a source.
  The resume capability is asked once per recovery attempt, with the thread id and
  the attempt number.
\<close>

type_synonym acquired = "string + event_source"

type_synonym resume_capability = "string \<Rightarrow> int \<Rightarrow> acquired"

section \<open>JavaScript helpers\<close>

text \<open>\<^verbatim>\<open>s.includes(sub)\<close>.\<close>

definition js_includes :: "string \<Rightarrow> string \<Rightarrow> bool" where
  "js_includes s sub = sublist sub s"

text \<open>Truthiness of a \<^verbatim>\<open>string | null | undefined\<close>: the empty string is falsy.\<close>

fun truthy :: "string option \<Rightarrow> bool" where
  "truthy None = False"
| "truthy (Some s) = (s \<noteq> [])"

text \<open>\<^verbatim>\<open>a || b\<close> on such values.\<close>

definition js_or :: "string option \<Rightarrow> string option \<Rightarrow> string option" where
  "js_or a b = (if truthy a then a else b)"

section \<open>\<^verbatim>\<open>determineResultLevel\<close>\<close>

definition determineResultLevel ::
  "thread_item list \<Rightarrow> bool \<Rightarrow> string option \<Rightarrow> result_level" where
  "determineResultLevel its hasError errorMessage =
     (if hasError then
        (if (case errorMessage of None \<Rightarrow> False | Some m \<Rightarrow> js_includes m ''timeout'')
            \<or> (case errorMessage of None \<Rightarrow> False | Some m \<Rightarrow> js_includes m ''aborted'')
         then TIMEOUT else ERROR)
      else if list_ex (\<lambda>i. item_type i = ''agent_message'') its then PASS
      else
        (let errorItems = filter (\<lambda>i. item_type i = ''error'') its;
             failedFileChanges =
               filter (\<lambda>i. item_type i = ''file_change'' \<and> item_status i = Some ''failed'') its
         in if length errorItems > 0 \<or> length failedFileChanges > 0 then FAIL else PASS))"

section \<open>\<^verbatim>\<open>processEventsWithStallDetection\<close>\<close>

text \<open>
  The local variables at loop entry. The function returns
  \<^verbatim>\<open>{ items, threadId, finalResponse, usage, stalled }\<close>, so \<open>error\<close> is unset in every
  result it returns. Progress lines go to a write-only log that no result depends on;
  the log is not modelled.
\<close>

definition initial_result :: event_processing_result where
  "initial_result =
     \<lparr>items = [], threadId = None, finalResponse = [], usage = None,
      stalled = False, error = None\<rparr>"

text \<open>The \<^verbatim>\<open>switch (event.type)\<close> of the loop body.\<close>

fun process_event ::
  "thread_event \<Rightarrow> event_processing_result \<Rightarrow> event_processing_result" where
  "process_event (ThreadStarted thread_id) st = st\<lparr>threadId := Some thread_id\<rparr>"
| "process_event TurnStarted st = st"
| "process_event (ItemStarted it) st = st"
| "process_event (ItemUpdated it) st = st"
| "process_event (ItemCompleted it) st =
     (let st1 = st\<lparr>items := items st @ [it]\<rparr>
      in case it of AgentMessage t \<Rightarrow> st1\<lparr>finalResponse := t\<rparr> | _ \<Rightarrow> st1)"
| "process_event (TurnCompleted u) st =
     st\<lparr>usage := Some \<lparr>input_tokens = input_tokens u, output_tokens = output_tokens u\<rparr>\<rparr>"
| "process_event (TurnFailed m) st = st"
| "process_event (ErrorEvent m) st = st"

text \<open>
  The \<^verbatim>\<open>while (true)\<close> loop, from the \<open>i\<close>-th call of \<^verbatim>\<open>next()\<close> on. It has no
  \<^verbatim>\<open>try\<close>: a rejected \<^verbatim>\<open>next()\<close> rejects the race and the exception leaves the function
  (\<open>Inl\<close>). A source that never ends, stalls or throws keeps the loop running (\<open>None\<close>).
\<close>

partial_function (option) consume_events ::
  "event_source \<Rightarrow> nat \<Rightarrow> event_processing_result
     \<Rightarrow> (string + event_processing_result) option" where
  "consume_events events i st =
     (case events i of
        TimedOut \<Rightarrow> Some (Inr (st\<lparr>stalled := True\<rparr>))
      | Finished \<Rightarrow> Some (Inr st)
      | Threw errorMessage \<Rightarrow> Some (Inl errorMessage)
      | Event event \<Rightarrow> consume_events events (Suc i) (process_event event st))"

declare consume_events.simps [code]

definition processEventsWithStallDetection ::
  "event_source \<Rightarrow> (string + event_processing_result) option" where
  "processEventsWithStallDetection events = consume_events events 0 initial_result"

section \<open>\<^verbatim>\<open>attemptRecovery\<close>\<close>

text \<open>The object built in the \<^verbatim>\<open>catch\<close> branch.\<close>

definition recovery_error_result :: "string \<Rightarrow> string \<Rightarrow> recovery_result" where
  "recovery_error_result tid errorMessage =
     \<lparr>items = [], threadId = Some tid, finalResponse = [], usage = None,
      stalled = True, error = Some errorMessage, recoverySuccess = False\<rparr>"

text \<open>\<^verbatim>\<open>{ ...result, recoverySuccess: b }\<close>.\<close>

definition with_recoverySuccess :: "event_processing_result \<Rightarrow> bool \<Rightarrow> recovery_result" where
  "with_recoverySuccess r b =
     \<lparr>items = items r, threadId = threadId r, finalResponse = finalResponse r,
      usage = usage r, stalled = stalled r, error = error r, recoverySuccess = b\<rparr>"

text \<open>
  The \<^verbatim>\<open>try\<close> covers both acquiring the resumed source and consuming it, so either
  exception ends in the \<^verbatim>\<open>catch\<close> branch.
\<close>

definition attemptRecovery ::
  "resume_capability \<Rightarrow> string \<Rightarrow> int \<Rightarrow> recovery_result option" where
  "attemptRecovery resume tid attempt =
     (case resume tid attempt of
        Inl errorMessage \<Rightarrow> Some (recovery_error_result tid errorMessage)
      | Inr events \<Rightarrow>
          (case processEventsWithStallDetection events of
             None \<Rightarrow> None
           | Some (Inl errorMessage) \<Rightarrow> Some (recovery_error_result tid errorMessage)
           | Some (Inr result) \<Rightarrow>
               if stalled result then Some (with_recoverySuccess result False)
               else Some (with_recoverySuccess result True)))"

section \<open>\<^verbatim>\<open>runWithStallRecovery\<close>\<close>

text \<open>\<^verbatim>\<open>{ ...recoveryResult, items: [...result.items, ...recoveryResult.items], threadId }\<close>.\<close>

definition merge_recovery ::
  "event_processing_result \<Rightarrow> recovery_result \<Rightarrow> string \<Rightarrow> event_processing_result" where
  "merge_recovery result recoveryResult tid =
     \<lparr>items = items result @ items recoveryResult, threadId = Some tid,
      finalResponse = finalResponse recoveryResult, usage = usage recoveryResult,
      stalled = stalled recoveryResult, error = error recoveryResult\<rparr>"

text \<open>\<^verbatim>\<open>recoveryResult.error || "Still stalled after recovery attempt"\<close>.\<close>

definition failure_reason :: "string option \<Rightarrow> string" where
  "failure_reason e =
     (case e of
        None \<Rightarrow> ''Still stalled after recovery attempt''
      | Some m \<Rightarrow> if m = [] then ''Still stalled after recovery attempt'' else m)"

text \<open>
  The \<^verbatim>\<open>for (let attempt = 1; attempt <= maxRecoveryAttempts; attempt++)\<close> loop, from
  the iteration \<open>attempt\<close> on, with the current \<open>result\<close> and \<open>recovery\<close>.
\<close>

function recovery_loop ::
  "resume_capability \<Rightarrow> string \<Rightarrow> int \<Rightarrow> int \<Rightarrow> event_processing_result \<Rightarrow> recovery_info
     \<Rightarrow> (event_processing_result \<times> recovery_info) option" where
  "recovery_loop resume tid maxRecoveryAttempts attempt result recovery =
     (if attempt \<le> maxRecoveryAttempts then
        (let recovery1 = recovery\<lparr>attempts := attempt\<rparr>
         in case attemptRecovery resume tid attempt of
              None \<Rightarrow> None
            | Some recoveryResult \<Rightarrow>
                if recoverySuccess recoveryResult then
                  Some (merge_recovery result recoveryResult tid, recovery1\<lparr>recovered := True\<rparr>)
                else
                  recovery_loop resume tid maxRecoveryAttempts (attempt + 1) result
                    (recovery1\<lparr>lastError := Some (failure_reason (error recoveryResult))\<rparr>))
      else Some (result, recovery))"
  by pat_completeness auto
termination
  by (relation "measure (\<lambda>(resume, tid, m, a, result, recovery). nat (m + 1 - a))") auto

text \<open>
  The values the variable \<open>recovery\<close> takes during the loop, in order: at each iteration
  the record after \<^verbatim>\<open>recovery.attempts = attempt\<close> (its value while the attempt is
  awaited), then the record after the attempt's outcome is stored.
\<close>

function recovery_trace ::
  "resume_capability \<Rightarrow> string \<Rightarrow> int \<Rightarrow> int \<Rightarrow> recovery_info \<Rightarrow> recovery_info list" where
  "recovery_trace resume tid maxRecoveryAttempts attempt recovery =
     (if attempt \<le> maxRecoveryAttempts then
        (let recovery1 = recovery\<lparr>attempts := attempt\<rparr>
         in recovery1 #
            (case attemptRecovery resume tid attempt of
               None \<Rightarrow> []
             | Some recoveryResult \<Rightarrow>
                 if recoverySuccess recoveryResult then [recovery1\<lparr>recovered := True\<rparr>]
                 else
                   (let recovery2 =
                          recovery1\<lparr>lastError := Some (failure_reason (error recoveryResult))\<rparr>
                    in recovery2 #
                       recovery_trace resume tid maxRecoveryAttempts (attempt + 1) recovery2)))
      else [])"
  by pat_completeness auto
termination
  by (relation "measure (\<lambda>(resume, tid, m, a, recovery). nat (m + 1 - a))") auto

definition initial_recovery :: recovery_info where
  "initial_recovery = \<lparr>attempted = False, attempts = 0, recovered = False, lastError = None\<rparr>"

text \<open>
  \<open>getThreadId\<close> is the value the caller's callback returns; it is read only when the
  result carries no truthy id.
\<close>

definition runWithStallRecovery ::
  "event_source \<Rightarrow> resume_capability \<Rightarrow> string option \<Rightarrow> int
     \<Rightarrow> (string + event_processing_result \<times> recovery_info) option" where
  "runWithStallRecovery events resume getThreadId maxRecoveryAttempts =
     (case processEventsWithStallDetection events of
        None \<Rightarrow> None
      | Some (Inl errorMessage) \<Rightarrow> Some (Inl errorMessage)
      | Some (Inr result) \<Rightarrow>
          (let recovery = initial_recovery;
               tidOpt = js_or (threadId result) getThreadId
           in if stalled result \<and> truthy tidOpt then
                (case tidOpt of
                   None \<Rightarrow> Some (Inr (result, recovery))
                 | Some tid \<Rightarrow>
                     map_option Inr
                       (recovery_loop resume tid maxRecoveryAttempts 1 result
                          (recovery\<lparr>attempted := True\<rparr>)))
              else Some (Inr (result, recovery))))"

text \<open>The whole history of \<open>recovery\<close> in a call of \<^verbatim>\<open>runWithStallRecovery\<close> whose first
  pass returned \<open>result\<close>.\<close>

definition recovery_history ::
  "event_processing_result \<Rightarrow> resume_capability \<Rightarrow> string option \<Rightarrow> int
     \<Rightarrow> recovery_info list" where
  "recovery_history result resume getThreadId maxRecoveryAttempts =
     (let tidOpt = js_or (threadId result) getThreadId
      in initial_recovery #
         (if stalled result \<and> truthy tidOpt then
            (case tidOpt of
               None \<Rightarrow> []
             | Some tid \<Rightarrow>
                 initial_recovery\<lparr>attempted := True\<rparr> #
                 recovery_trace resume tid maxRecoveryAttempts 1
                   (initial_recovery\<lparr>attempted := True\<rparr>))
          else []))"

section \<open>The tool handlers\<close>

text \<open>
  The handlers return a JSON text. The model keeps the fields of \<^verbatim>\<open>summary\<close> that are
  computed from the run (not the log path, the roll-out file pattern and the level
  label, which come from the file system, the clock and the arguments), together with
  the \<^verbatim>\<open>resultLevel\<close> that the handler computes, logs and renames the log file with.
\<close>

record run_stats =
  totalItems :: nat
  commands :: nat
  fileChanges :: nat
  mcpCalls :: nat
  stats_usage :: "token_usage option"

record summary =
  summary_threadId :: "string option"
  content :: string
  stats :: run_stats
  filesModified :: "string list"
  recovery_field :: "recovery_info option"
  needsUserInput :: bool

datatype tool_response =
    Summary summary
  | ErrorResponse string

definition DEFAULT_MAX_RECOVERY_ATTEMPTS :: int where
  "DEFAULT_MAX_RECOVERY_ATTEMPTS = 2"

text \<open>\<^verbatim>\<open>i.type === "file_change" ? i.changes.map(c => `${c.kind}: ${c.path}`) : []\<close>.\<close>

fun change_lines :: "thread_item \<Rightarrow> string list" where
  "change_lines (FileChange changes s) = map (\<lambda>(kind, path). kind @ '': '' @ path) changes"
| "change_lines _ = []"

text \<open>The \<^verbatim>\<open>try\<close> part of a handler after \<^verbatim>\<open>runWithStallRecovery\<close> has returned.\<close>

definition build_summary ::
  "string option \<Rightarrow> event_processing_result \<Rightarrow> recovery_info \<Rightarrow> result_level \<times> tool_response" where
  "build_summary tid result recovery =
     (let hasUnrecoveredStall = (stalled result \<and> \<not> recovered recovery);
          resultLevel =
            (if hasUnrecoveredStall then TIMEOUT
             else determineResultLevel (items result) False None);
          commandItems = filter (\<lambda>i. item_type i = ''command_execution'') (items result);
          fileItems = filter (\<lambda>i. item_type i = ''file_change'') (items result);
          mcpItems = filter (\<lambda>i. item_type i = ''mcp_tool_call'') (items result)
      in (resultLevel,
          Summary
            \<lparr>summary_threadId = tid,
             content = finalResponse result,
             stats =
               \<lparr>totalItems = length (items result), commands = length commandItems,
                fileChanges = length fileItems, mcpCalls = length mcpItems,
                stats_usage = usage result\<rparr>,
             filesModified = concat (map change_lines fileItems),
             recovery_field = (if attempted recovery then Some recovery else None),
             needsUserInput = hasUnrecoveredStall\<rparr>))"

text \<open>The \<^verbatim>\<open>catch\<close> part of a handler.\<close>

definition error_response :: "string \<Rightarrow> result_level \<times> tool_response" where
  "error_response errorMessage =
     (determineResultLevel [] True (Some errorMessage),
      ErrorResponse (''Codex Exec exited with code 1: '' @ errorMessage))"

text \<open>
  The \<^verbatim>\<open>run\<close> tool. \<open>start\<close> is what acquiring the first source does. The callback
  \<^verbatim>\<open>() => capturedThreadId\<close> returns \<^verbatim>\<open>null\<close> whenever \<^verbatim>\<open>runWithStallRecovery\<close> calls
  it, since \<^verbatim>\<open>capturedThreadId\<close> is assigned only after that call has returned.
\<close>

definition run_tool ::
  "acquired \<Rightarrow> resume_capability \<Rightarrow> int option \<Rightarrow> (result_level \<times> tool_response) option" where
  "run_tool start resume maxRecoveryAttempts =
     (let maxAttempts =
            (case maxRecoveryAttempts of None \<Rightarrow> DEFAULT_MAX_RECOVERY_ATTEMPTS | Some n \<Rightarrow> n)
      in case start of
           Inl errorMessage \<Rightarrow> Some (error_response errorMessage)
         | Inr events \<Rightarrow>
             (case runWithStallRecovery events resume None maxAttempts of
                None \<Rightarrow> None
              | Some (Inl errorMessage) \<Rightarrow> Some (error_response errorMessage)
              | Some (Inr (result, recovery)) \<Rightarrow>
                  Some (build_summary (threadId result) result recovery)))"

text \<open>The \<^verbatim>\<open>reply\<close> tool: the caller supplies the thread id, which is also the id reported.\<close>

definition reply_tool ::
  "string \<Rightarrow> acquired \<Rightarrow> resume_capability \<Rightarrow> int option
     \<Rightarrow> (result_level \<times> tool_response) option" where
  "reply_tool tid start resume maxRecoveryAttempts =
     (let maxAttempts =
            (case maxRecoveryAttempts of None \<Rightarrow> DEFAULT_MAX_RECOVERY_ATTEMPTS | Some n \<Rightarrow> n)
      in case start of
           Inl errorMessage \<Rightarrow> Some (error_response errorMessage)
         | Inr events \<Rightarrow>
             (case runWithStallRecovery events resume (Some tid) maxAttempts of
                None \<Rightarrow> None
              | Some (Inl errorMessage) \<Rightarrow> Some (error_response errorMessage)
              | Some (Inr (result, recovery)) \<Rightarrow>
                  Some (build_summary (Some tid) result recovery)))"

section \<open>Vocabulary for stating properties\<close>

text \<open>
  \<open>delivers events es final\<close>: the first races of the source resolve to the events
  \<open>es\<close>, in order, and the next race resolves to \<open>final\<close>.
\<close>

definition delivers :: "event_source \<Rightarrow> thread_event list \<Rightarrow> next_result \<Rightarrow> bool" where
  "delivers events es final \<longleftrightarrow>
     map events [0..<length es] = map Event es \<and> events (length es) = final"

text \<open>The ids carried by the \<^verbatim>\<open>thread.started\<close> events of a list, in order.\<close>

fun started_ids :: "thread_event list \<Rightarrow> string list" where
  "started_ids [] = []"
| "started_ids (ThreadStarted thread_id # es) = thread_id # started_ids es"
| "started_ids (e # es) = started_ids es"

text \<open>The events of kind \<^verbatim>\<open>turn.failed\<close> and \<^verbatim>\<open>error\<close>.\<close>

fun logged_only :: "thread_event \<Rightarrow> bool" where
  "logged_only (TurnFailed m) = True"
| "logged_only (ErrorEvent m) = True"
| "logged_only _ = False"

text \<open>
  A resume capability given by a plan: the \<open>k\<close>-th recovery attempt throws the
  \<open>k\<close>-th entry's message or gets the source of its script; beyond the plan the
  thread is unreachable.
\<close>

definition scripted_resume :: "(string + next_result list) list \<Rightarrow> resume_capability" where
  "scripted_resume plan tid attempt =
     (if 1 \<le> attempt \<and> nat attempt \<le> length plan then
        (case plan ! (nat attempt - 1) of
           Inl errorMessage \<Rightarrow> Inl errorMessage
         | Inr script \<Rightarrow> Inr (script_source script))
      else Inl ''unreachable'')"

text \<open>
  The recovery pass of an attempt fails: resuming the thread raises, or the resumed
  stream raises, or the pass returns stalled. (A pass that never returns neither fails
  nor succeeds.)
\<close>

definition pass_fails :: "resume_capability \<Rightarrow> string \<Rightarrow> int \<Rightarrow> bool" where
  "pass_fails resume tid attempt =
     (case resume tid attempt of
        Inl errorMessage \<Rightarrow> True
      | Inr events \<Rightarrow>
          (case processEventsWithStallDetection events of
             None \<Rightarrow> False
           | Some (Inl errorMessage) \<Rightarrow> True
           | Some (Inr result) \<Rightarrow> stalled result))"

section \<open>The outcome evaluator\<close>

text \<open>
  Claim C2. With \<open>hasError = False\<close>, an item list that contains an \<^verbatim>\<open>agent_message\<close>
  item is classified \<open>PASS\<close>, whatever error items or failed file changes it also
  contains.
\<close>

theorem message_gives_PASS:
  assumes "AgentMessage t \<in> set its"
  shows "determineResultLevel its False errorMessage = PASS"
proof -
  have "list_ex (\<lambda>i. item_type i = ''agent_message'') its"
    unfolding list_ex_iff using assms by (intro bexI [of _ "AgentMessage t"]) simp_all
  then show ?thesis by (simp add: determineResultLevel_def)
qed

theorem message_gives_PASS_witness:
  "AgentMessage ''done''
     \<in> set [ErrorItem ''boom'', FileChange [(''update'', ''a.ts'')] ''failed'',
             AgentMessage ''done'', ErrorItem ''late'']
   \<and> determineResultLevel
       [ErrorItem ''boom'', FileChange [(''update'', ''a.ts'')] ''failed'',
        AgentMessage ''done'', ErrorItem ''late'']
       False None = PASS"
proof -
  have h: "AgentMessage ''done''
     \<in> set [ErrorItem ''boom'', FileChange [(''update'', ''a.ts'')] ''failed'',
             AgentMessage ''done'', ErrorItem ''late'']"
    by simp
  from message_gives_PASS [OF h, of None] h show ?thesis by simp
qed

section \<open>The timed event consumer\<close>

lemma delivers_nth:
  assumes "delivers events es final" "j < length es"
  shows "events j = Event (es ! j)"
proof -
  have "map events [0..<length es] ! j = map Event es ! j"
    using assms(1) by (simp add: delivers_def)
  then show ?thesis using assms(2) by simp
qed

lemma delivers_final: "delivers events es final \<Longrightarrow> events (length es) = final"
  by (simp add: delivers_def)

lemma consume_events_prefix:
  "(\<forall>j<length es. events (i + j) = Event (es ! j))
   \<Longrightarrow> consume_events events i st
       = consume_events events (i + length es) (fold process_event es st)"
proof (induction es arbitrary: i st)
  case Nil
  then show ?case by simp
next
  case (Cons e es)
  have head: "events i = Event e" using Cons.prems [rule_format, of 0] by simp
  have tail: "\<forall>j<length es. events (Suc i + j) = Event (es ! j)"
  proof (intro allI impI)
    fix j assume "j < length es"
    then show "events (Suc i + j) = Event (es ! j)"
      using Cons.prems [rule_format, of "Suc j"] by simp
  qed
  have "consume_events events i st = consume_events events (Suc i) (process_event e st)"
    by (subst consume_events.simps) (simp add: head)
  also have "\<dots> = consume_events events (Suc i + length es)
                     (fold process_event es (process_event e st))"
    by (rule Cons.IH [OF tail])
  finally show ?case by simp
qed

lemma consume_events_Threw:
  "events i = Threw m \<Longrightarrow> consume_events events i st = Some (Inl m)"
  by (subst consume_events.simps) simp

lemma consume_events_Finished:
  "events i = Finished \<Longrightarrow> consume_events events i st = Some (Inr st)"
  by (subst consume_events.simps) simp

lemma consume_events_TimedOut:
  "events i = TimedOut \<Longrightarrow> consume_events events i st = Some (Inr (st\<lparr>stalled := True\<rparr>))"
  by (subst consume_events.simps) simp

lemma process_delivers:
  assumes "delivers events es final"
  shows "processEventsWithStallDetection events
         = consume_events events (length es) (fold process_event es initial_result)"
proof -
  have "\<forall>j<length es. events (0 + j) = Event (es ! j)"
    using delivers_nth [OF assms] by simp
  from consume_events_prefix [OF this] show ?thesis
    by (simp add: processEventsWithStallDetection_def)
qed

lemma process_delivers_Threw:
  "delivers events es (Threw m) \<Longrightarrow> processEventsWithStallDetection events = Some (Inl m)"
  by (simp add: process_delivers consume_events_Threw delivers_final)

lemma process_delivers_Finished:
  "delivers events es Finished \<Longrightarrow>
   processEventsWithStallDetection events = Some (Inr (fold process_event es initial_result))"
  by (simp add: process_delivers consume_events_Finished delivers_final)

lemma process_delivers_TimedOut:
  "delivers events es TimedOut \<Longrightarrow>
   processEventsWithStallDetection events
   = Some (Inr ((fold process_event es initial_result)\<lparr>stalled := True\<rparr>))"
  by (simp add: process_delivers consume_events_TimedOut delivers_final)

lemma fold_logged_only:
  "\<forall>e\<in>set es. logged_only e \<Longrightarrow> fold process_event es st = st"
proof (induction es arbitrary: st)
  case Nil
  then show ?case by simp
next
  case (Cons e es)
  then have "logged_only e" by simp
  then have "process_event e st = st" by (cases e) simp_all
  with Cons show ?case by simp
qed

lemma threadId_process_event:
  "threadId (process_event e st) = (case e of ThreadStarted t \<Rightarrow> Some t | _ \<Rightarrow> threadId st)"
  by (cases e) (simp_all add: Let_def split: thread_item.split)

lemma threadId_fold:
  "threadId (fold process_event es st)
   = (if started_ids es = [] then threadId st else Some (last (started_ids es)))"
proof (induction es arbitrary: st)
  case Nil
  then show ?case by simp
next
  case (Cons e es)
  show ?case
    using Cons.IH [of "process_event e st"]
    by (cases e) (simp_all add: threadId_process_event del: process_event.simps)
qed

text \<open>
  Claim C1, as stated: when \<^verbatim>\<open>next()\<close> rejects, the consumer returns a result whose
  \<open>error\<close> is the message and whose \<open>stalled\<close> is false. It does not: the loop has no
  \<^verbatim>\<open>try\<close>, and on a source whose first \<^verbatim>\<open>next()\<close> rejects with \<^verbatim>\<open>boom\<close> the function
  throws \<^verbatim>\<open>boom\<close> and returns no result.
\<close>

theorem rejected_next_counterexample:
  "processEventsWithStallDetection (script_source [Threw ''boom'']) = Some (Inl ''boom'')
   \<and> processEventsWithStallDetection (script_source [Threw ''boom''])
       \<noteq> Some (Inr (initial_result\<lparr>error := Some ''boom''\<rparr>))"
  by code_simp

text \<open>
  Claim C1, amended: when \<^verbatim>\<open>next()\<close> rejects with message \<open>m\<close>, after any events
  \<open>es\<close>, consumption stops and \<^verbatim>\<open>processEventsWithStallDetection\<close> throws \<open>m\<close> to its
  caller; no result is returned, so neither \<open>error\<close> nor \<open>stalled\<close> is reported by it.
\<close>

theorem rejected_next_propagates:
  assumes "delivers events es (Threw m)"
  shows "processEventsWithStallDetection events = Some (Inl m)"
  using assms by (rule process_delivers_Threw)

theorem rejected_next_propagates_witness:
  "delivers
     (script_source
        [Event TurnStarted, Event (ItemCompleted (Reasoning ''r'')), Threw ''socket closed''])
     [TurnStarted, ItemCompleted (Reasoning ''r'')] (Threw ''socket closed'')
   \<and> processEventsWithStallDetection
       (script_source
          [Event TurnStarted, Event (ItemCompleted (Reasoning ''r'')), Threw ''socket closed''])
     = Some (Inl ''socket closed'')"
proof -
  have h: "delivers
     (script_source
        [Event TurnStarted, Event (ItemCompleted (Reasoning ''r'')), Threw ''socket closed''])
     [TurnStarted, ItemCompleted (Reasoning ''r'')] (Threw ''socket closed'')"
    by code_simp
  from rejected_next_propagates [OF h] h show ?thesis by simp
qed

text \<open>
  Claim C9. A source whose first race is won by the timer (no event is delivered before
  the inactivity timeout) makes the consumer return \<open>stalled = True\<close> and an empty item
  list.
\<close>

theorem silent_source_stalls:
  assumes "events 0 = TimedOut"
  shows "processEventsWithStallDetection events
         = Some (Inr \<lparr>items = [], threadId = None, finalResponse = [], usage = None,
                      stalled = True, error = None\<rparr>)"
  using assms
  by (simp add: processEventsWithStallDetection_def consume_events_TimedOut initial_result_def)

theorem silent_source_stalls_witness:
  "script_source [TimedOut, Event (ItemCompleted (AgentMessage ''late''))] 0 = TimedOut
   \<and> processEventsWithStallDetection
       (script_source [TimedOut, Event (ItemCompleted (AgentMessage ''late''))])
     = Some (Inr \<lparr>items = [], threadId = None, finalResponse = [], usage = None,
                  stalled = True, error = None\<rparr>)"
proof -
  have h: "script_source [TimedOut, Event (ItemCompleted (AgentMessage ''late''))] 0 = TimedOut"
    by (simp add: script_source_def)
  from silent_source_stalls
         [of "script_source [TimedOut, Event (ItemCompleted (AgentMessage ''late''))]", OF h] h
  show ?thesis by simp
qed

text \<open>
  Claim C4, as stated: once a \<^verbatim>\<open>thread.started\<close> event has set \<open>threadId\<close>, no later
  event of the run changes it. The assignment in the \<^verbatim>\<open>switch\<close> is unconditional: after
  \<^verbatim>\<open>thread.started\<close> with id \<^verbatim>\<open>X\<close> the recorded id is \<^verbatim>\<open>X\<close>, and a second
  \<^verbatim>\<open>thread.started\<close> with id \<^verbatim>\<open>Y\<close> replaces it.
\<close>

theorem session_id_reassigned_counterexample:
  "threadId (process_event (ThreadStarted ''X'') initial_result) = Some ''X''
   \<and> threadId (process_event (ThreadStarted ''Y'')
                 (process_event (ThreadStarted ''X'') initial_result)) = Some ''Y''
   \<and> processEventsWithStallDetection
       (script_source [Event (ThreadStarted ''X''), Event (ThreadStarted ''Y'')])
     = Some (Inr \<lparr>items = [], threadId = Some ''Y'', finalResponse = [], usage = None,
                  stalled = False, error = None\<rparr>)"
  by code_simp

text \<open>
  Claim C4, amended: every \<^verbatim>\<open>thread.started\<close> event assigns \<open>threadId\<close>, and no event
  of another kind changes it. So after any events \<open>es\<close> the recorded id is the id of the
  last \<^verbatim>\<open>thread.started\<close> among them (the earlier value when there is none), and this
  is the id in the result when the stream then ends or stalls. In a run with a single
  \<^verbatim>\<open>thread.started\<close> event the id is therefore assigned once and kept.
\<close>

theorem session_id_is_last_started:
  "threadId (process_event e st)
     = (case e of ThreadStarted thread_id \<Rightarrow> Some thread_id | _ \<Rightarrow> threadId st)
   \<and> threadId (fold process_event es st)
     = (if started_ids es = [] then threadId st else Some (last (started_ids es)))
   \<and> (delivers events es final \<and> (final = Finished \<or> final = TimedOut) \<longrightarrow>
        (\<exists>r. processEventsWithStallDetection events = Some (Inr r)
           \<and> threadId r = (if started_ids es = [] then None
                            else Some (last (started_ids es)))))"
proof (intro conjI impI)
  show "threadId (process_event e st)
     = (case e of ThreadStarted thread_id \<Rightarrow> Some thread_id | _ \<Rightarrow> threadId st)"
    by (rule threadId_process_event)
  show "threadId (fold process_event es st)
     = (if started_ids es = [] then threadId st else Some (last (started_ids es)))"
    by (rule threadId_fold)
  assume a: "delivers events es final \<and> (final = Finished \<or> final = TimedOut)"
  have t: "threadId (fold process_event es initial_result)
           = (if started_ids es = [] then None else Some (last (started_ids es)))"
    by (simp add: threadId_fold initial_result_def)
  from a consider "delivers events es Finished" | "delivers events es TimedOut" by blast
  then show "\<exists>r. processEventsWithStallDetection events = Some (Inr r)
           \<and> threadId r = (if started_ids es = [] then None
                            else Some (last (started_ids es)))"
  proof cases
    case 1
    from process_delivers_Finished [OF this] t show ?thesis by simp
  next
    case 2
    from process_delivers_TimedOut [OF this] t show ?thesis by simp
  qed
qed

theorem session_id_is_last_started_witness:
  "delivers
     (script_source [Event (ThreadStarted ''X''), Event TurnStarted,
                     Event (ItemCompleted (AgentMessage ''done''))])
     [ThreadStarted ''X'', TurnStarted, ItemCompleted (AgentMessage ''done'')] Finished
   \<and> (\<exists>r. processEventsWithStallDetection
             (script_source [Event (ThreadStarted ''X''), Event TurnStarted,
                             Event (ItemCompleted (AgentMessage ''done''))]) = Some (Inr r)
          \<and> threadId r = Some ''X'')"
proof -
  have h: "delivers
     (script_source [Event (ThreadStarted ''X''), Event TurnStarted,
                     Event (ItemCompleted (AgentMessage ''done''))])
     [ThreadStarted ''X'', TurnStarted, ItemCompleted (AgentMessage ''done'')] Finished"
    by code_simp
  from session_id_is_last_started
         [where es = "[ThreadStarted ''X'', TurnStarted, ItemCompleted (AgentMessage ''done'')]"
            and events = "script_source [Event (ThreadStarted ''X''), Event TurnStarted,
                     Event (ItemCompleted (AgentMessage ''done''))]"
            and final = Finished] h
  show ?thesis by simp
qed

text \<open>
  Claim C10. \<^verbatim>\<open>turn.failed\<close> and \<^verbatim>\<open>error\<close> events are only logged: a stream of such
  events followed by the end of the stream gives a result with no items, not stalled
  and with no error, and both handlers classify the run as \<open>PASS\<close>.
\<close>

theorem failure_events_contribute_nothing:
  assumes "delivers events es Finished" and "\<forall>e\<in>set es. logged_only e"
  shows "processEventsWithStallDetection events
         = Some (Inr \<lparr>items = [], threadId = None, finalResponse = [], usage = None,
                      stalled = False, error = None\<rparr>)
       \<and> run_tool (Inr events) resume maxRecoveryAttempts
         = Some (PASS,
                 Summary
                   \<lparr>summary_threadId = None, content = [],
                    stats = \<lparr>totalItems = 0, commands = 0, fileChanges = 0, mcpCalls = 0,
                             stats_usage = None\<rparr>,
                    filesModified = [], recovery_field = None, needsUserInput = False\<rparr>)
       \<and> reply_tool tid (Inr events) resume maxRecoveryAttempts
         = Some (PASS,
                 Summary
                   \<lparr>summary_threadId = Some tid, content = [],
                    stats = \<lparr>totalItems = 0, commands = 0, fileChanges = 0, mcpCalls = 0,
                             stats_usage = None\<rparr>,
                    filesModified = [], recovery_field = None, needsUserInput = False\<rparr>)"
proof -
  have p: "processEventsWithStallDetection events = Some (Inr initial_result)"
    using process_delivers_Finished [OF assms(1)] fold_logged_only [OF assms(2)] by simp
  have r: "runWithStallRecovery events resume g n = Some (Inr (initial_result, initial_recovery))"
    for g n
    by (simp add: runWithStallRecovery_def p initial_result_def)
  have b: "build_summary t initial_result initial_recovery
           = (PASS,
                 Summary
                   \<lparr>summary_threadId = t, content = [],
                    stats = \<lparr>totalItems = 0, commands = 0, fileChanges = 0, mcpCalls = 0,
                             stats_usage = None\<rparr>,
                    filesModified = [], recovery_field = None, needsUserInput = False\<rparr>)" for t
    by (simp add: build_summary_def initial_result_def initial_recovery_def
        determineResultLevel_def)
  have t: "threadId initial_result = None" by (simp add: initial_result_def)
  show ?thesis
    using p by (simp add: run_tool_def reply_tool_def r b t) (simp add: initial_result_def)
qed

theorem failure_events_contribute_nothing_witness:
  "delivers (script_source [Event (TurnFailed ''rate limit''), Event (ErrorEvent ''stream error'')])
     [TurnFailed ''rate limit'', ErrorEvent ''stream error''] Finished
   \<and> list_all logged_only [TurnFailed ''rate limit'', ErrorEvent ''stream error'']
   \<and> processEventsWithStallDetection
        (script_source [Event (TurnFailed ''rate limit''), Event (ErrorEvent ''stream error'')])
      = Some (Inr \<lparr>items = [], threadId = None, finalResponse = [], usage = None,
                      stalled = False, error = None\<rparr>)
   \<and> run_tool
        (Inr (script_source [Event (TurnFailed ''rate limit''), Event (ErrorEvent ''stream error'')]))
        (scripted_resume []) None
      = Some (PASS,
              Summary
                \<lparr>summary_threadId = None, content = [],
                 stats = \<lparr>totalItems = 0, commands = 0, fileChanges = 0, mcpCalls = 0,
                          stats_usage = None\<rparr>,
                 filesModified = [], recovery_field = None, needsUserInput = False\<rparr>)"
proof -
  have h1: "delivers (script_source [Event (TurnFailed ''rate limit''), Event (ErrorEvent ''stream error'')])
     [TurnFailed ''rate limit'', ErrorEvent ''stream error''] Finished"
    by code_simp
  have h2: "\<forall>e\<in>set [TurnFailed ''rate limit'', ErrorEvent ''stream error'']. logged_only e"
    by simp
  from failure_events_contribute_nothing [OF h1 h2, of "scripted_resume []" None] h1 h2
  show ?thesis by simp
qed

section \<open>Errors raised by the source\<close>

text \<open>
  Claim C5. With \<open>hasError = True\<close> the level is \<open>TIMEOUT\<close> exactly when the message
  contains \<^verbatim>\<open>timeout\<close> or \<^verbatim>\<open>aborted\<close>, and \<open>ERROR\<close> otherwise (also when there is no
  message). When the source of the original run throws \<open>m\<close>, while it is acquired or
  after any events, the handler answers with that classification of \<open>m\<close> and an error
  response, whatever the resume capability would do: no recovery takes place.
\<close>

theorem error_classification:
  "determineResultLevel its True (Some m)
     = (if js_includes m ''timeout'' \<or> js_includes m ''aborted'' then TIMEOUT else ERROR)
   \<and> determineResultLevel its True None = ERROR
   \<and> (delivers events es (Threw m) \<longrightarrow>
        run_tool (Inr events) resume maxRecoveryAttempts
          = Some (if js_includes m ''timeout'' \<or> js_includes m ''aborted'' then TIMEOUT else ERROR,
                  ErrorResponse (''Codex Exec exited with code 1: '' @ m))
      \<and> reply_tool tid (Inr events) resume maxRecoveryAttempts
          = Some (if js_includes m ''timeout'' \<or> js_includes m ''aborted'' then TIMEOUT else ERROR,
                  ErrorResponse (''Codex Exec exited with code 1: '' @ m)))
   \<and> run_tool (Inl m) resume maxRecoveryAttempts
       = Some (if js_includes m ''timeout'' \<or> js_includes m ''aborted'' then TIMEOUT else ERROR,
               ErrorResponse (''Codex Exec exited with code 1: '' @ m))"
proof -
  have d: "determineResultLevel is True (Some m)
     = (if js_includes m ''timeout'' \<or> js_includes m ''aborted'' then TIMEOUT else ERROR)" for "is"
    by (simp add: determineResultLevel_def)
  have n: "determineResultLevel its True None = ERROR"
    by (simp add: determineResultLevel_def)
  have e: "error_response m
     = (if js_includes m ''timeout'' \<or> js_includes m ''aborted'' then TIMEOUT else ERROR,
        ErrorResponse (''Codex Exec exited with code 1: '' @ m))"
    unfolding error_response_def d ..
  have r: "runWithStallRecovery events resume g n = Some (Inl m)"
    if "delivers events es (Threw m)" for g n
    using process_delivers_Threw [OF that] by (simp add: runWithStallRecovery_def)
  show ?thesis
    using d [of its] n e r by (simp add: run_tool_def reply_tool_def)
qed

theorem error_classification_witness:
  "delivers (script_source [Event TurnStarted, Threw ''request timeout after 30s'']) [TurnStarted]
     (Threw ''request timeout after 30s'')
   \<and> run_tool (Inr (script_source [Event TurnStarted, Threw ''request timeout after 30s'']))
       (scripted_resume [Inr [Event (ItemCompleted (AgentMessage ''done''))]]) None
     = Some (TIMEOUT, ErrorResponse ''Codex Exec exited with code 1: request timeout after 30s'')"
proof -
  have h: "delivers (script_source [Event TurnStarted, Threw ''request timeout after 30s''])
     [TurnStarted] (Threw ''request timeout after 30s'')"
    by code_simp
  have i: "js_includes ''request timeout after 30s'' ''timeout''"
    by code_simp
  from error_classification
         [where m = "''request timeout after 30s''"
            and events = "script_source [Event TurnStarted, Threw ''request timeout after 30s'']"
            and es = "[TurnStarted]"
            and resume = "scripted_resume [Inr [Event (ItemCompleted (AgentMessage ''done''))]]"
            and maxRecoveryAttempts = None] h i
  show ?thesis by simp
qed

section \<open>Recovery\<close>

declare recovery_loop.simps [simp del] recovery_trace.simps [simp del]

lemma attemptRecovery_throws:
  "resume tid attempt = Inl m \<Longrightarrow>
   attemptRecovery resume tid attempt = Some (recovery_error_result tid m)"
  by (simp add: attemptRecovery_def)

lemma attemptRecovery_rejected:
  "resume tid attempt = Inr events \<Longrightarrow> processEventsWithStallDetection events = Some (Inl m) \<Longrightarrow>
   attemptRecovery resume tid attempt = Some (recovery_error_result tid m)"
  by (simp add: attemptRecovery_def)

lemma attemptRecovery_returns:
  "resume tid attempt = Inr events \<Longrightarrow> processEventsWithStallDetection events = Some (Inr r) \<Longrightarrow>
   attemptRecovery resume tid attempt = Some (with_recoverySuccess r (\<not> stalled r))"
  by (simp add: attemptRecovery_def)

lemma attemptRecovery_success:
  assumes "attemptRecovery resume tid attempt = Some rr" and "recoverySuccess rr"
  shows "\<exists>events r. resume tid attempt = Inr events
           \<and> processEventsWithStallDetection events = Some (Inr r)
           \<and> \<not> stalled r \<and> rr = with_recoverySuccess r True"
  using assms
  by (auto simp: attemptRecovery_def recovery_error_result_def with_recoverySuccess_def
      split: sum.splits option.splits if_splits)

lemma recovery_loop_done:
  "\<not> attempt \<le> mx \<Longrightarrow> recovery_loop resume tid mx attempt result recovery = Some (result, recovery)"
  by (subst recovery_loop.simps) simp

lemma recovery_loop_diverges:
  "attempt \<le> mx \<Longrightarrow> attemptRecovery resume tid attempt = None \<Longrightarrow>
   recovery_loop resume tid mx attempt result recovery = None"
  by (subst recovery_loop.simps) simp

lemma recovery_loop_success:
  "attempt \<le> mx \<Longrightarrow> attemptRecovery resume tid attempt = Some rr \<Longrightarrow> recoverySuccess rr \<Longrightarrow>
   recovery_loop resume tid mx attempt result recovery
   = Some (merge_recovery result rr tid, recovery\<lparr>attempts := attempt, recovered := True\<rparr>)"
  by (subst recovery_loop.simps) simp

lemma recovery_loop_failure:
  "attempt \<le> mx \<Longrightarrow> attemptRecovery resume tid attempt = Some rr \<Longrightarrow> \<not> recoverySuccess rr \<Longrightarrow>
   recovery_loop resume tid mx attempt result recovery
   = recovery_loop resume tid mx (attempt + 1) result
       (recovery\<lparr>attempts := attempt, lastError := Some (failure_reason (error rr))\<rparr>)"
  by (subst recovery_loop.simps) simp

text \<open>What a returning loop has done: either some attempt \<open>k\<close> succeeded after the
  attempts before it failed, or every attempt up to the bound failed.\<close>

lemma recovery_loop_result:
  assumes "recovery_loop resume tid mx attempt result recovery = Some (final, recovery')"
  shows "(\<exists>k rr. attempt \<le> k \<and> k \<le> mx
            \<and> attemptRecovery resume tid k = Some rr \<and> recoverySuccess rr
            \<and> (\<forall>j. attempt \<le> j \<and> j < k \<longrightarrow>
                  (\<exists>rj. attemptRecovery resume tid j = Some rj \<and> \<not> recoverySuccess rj))
            \<and> final = merge_recovery result rr tid
            \<and> attempts recovery' = k \<and> recovered recovery'
            \<and> attempted recovery' = attempted recovery)
       \<or> ((\<forall>j. attempt \<le> j \<and> j \<le> mx \<longrightarrow>
               (\<exists>rj. attemptRecovery resume tid j = Some rj \<and> \<not> recoverySuccess rj))
            \<and> final = result
            \<and> attempts recovery' = (if attempt \<le> mx then mx else attempts recovery)
            \<and> recovered recovery' = recovered recovery
            \<and> attempted recovery' = attempted recovery)"
  using assms
proof (induction resume tid mx attempt result recovery rule: recovery_loop.induct)
  case (1 resume tid mx attempt result recovery)
  show ?case
  proof (cases "attempt \<le> mx")
    case False
    with "1.prems" have "final = result" and "recovery' = recovery"
      by (simp_all add: recovery_loop_done)
    with False show ?thesis by (intro disjI2) auto
  next
    case le: True
    show ?thesis
    proof (cases "attemptRecovery resume tid attempt")
      case None
      with le "1.prems" show ?thesis by (simp add: recovery_loop_diverges)
    next
      case (Some rr)
      show ?thesis
      proof (cases "recoverySuccess rr")
        case True
        from "1.prems" have "final = merge_recovery result rr tid"
          and "recovery' = recovery\<lparr>attempts := attempt, recovered := True\<rparr>"
          by (simp_all add: recovery_loop_success [OF le Some True])
        then have "attempt \<le> attempt \<and> attempt \<le> mx
            \<and> attemptRecovery resume tid attempt = Some rr \<and> recoverySuccess rr
            \<and> (\<forall>j. attempt \<le> j \<and> j < attempt \<longrightarrow>
                  (\<exists>rj. attemptRecovery resume tid j = Some rj \<and> \<not> recoverySuccess rj))
            \<and> final = merge_recovery result rr tid
            \<and> attempts recovery' = attempt \<and> recovered recovery'
            \<and> attempted recovery' = attempted recovery"
          using le Some True by auto
        then show ?thesis by blast
      next
        case False
        let ?rec = "recovery\<lparr>attempts := attempt, lastError := Some (failure_reason (error rr))\<rparr>"
        have next_call: "recovery_loop resume tid mx (attempt + 1) result ?rec = Some (final, recovery')"
          using "1.prems" by (simp add: recovery_loop_failure [OF le Some False])
        have here: "\<exists>rj. attemptRecovery resume tid attempt = Some rj \<and> \<not> recoverySuccess rj"
          using Some False by blast
        have split: "attempt \<le> j \<longleftrightarrow> j = attempt \<or> attempt + 1 \<le> j" for j :: int
          by auto
        from "1.IH" [OF le refl Some False next_call]
        consider
          (succ) k rk where "attempt + 1 \<le> k" "k \<le> mx"
            "attemptRecovery resume tid k = Some rk" "recoverySuccess rk"
            "\<forall>j. attempt + 1 \<le> j \<and> j < k \<longrightarrow>
                  (\<exists>rj. attemptRecovery resume tid j = Some rj \<and> \<not> recoverySuccess rj)"
            "final = merge_recovery result rk tid"
            "attempts recovery' = k" "recovered recovery'"
            "attempted recovery' = attempted ?rec"
        | (fail) "\<forall>j. attempt + 1 \<le> j \<and> j \<le> mx \<longrightarrow>
               (\<exists>rj. attemptRecovery resume tid j = Some rj \<and> \<not> recoverySuccess rj)"
            "final = result"
            "attempts recovery' = (if attempt + 1 \<le> mx then mx else attempts ?rec)"
            "recovered recovery' = recovered ?rec"
            "attempted recovery' = attempted ?rec"
          by blast
        then show ?thesis
        proof cases
          case succ
          have before: "\<forall>j. attempt \<le> j \<and> j < k \<longrightarrow>
                  (\<exists>rj. attemptRecovery resume tid j = Some rj \<and> \<not> recoverySuccess rj)"
            using succ(5) here split by metis
          have "attempt \<le> k" using succ(1) by simp
          with succ before show ?thesis by (intro disjI1 exI [of _ k] exI [of _ rk]) simp
        next
          case fail
          have every: "\<forall>j. attempt \<le> j \<and> j \<le> mx \<longrightarrow>
               (\<exists>rj. attemptRecovery resume tid j = Some rj \<and> \<not> recoverySuccess rj)"
            using fail(1) here split by metis
          have "attempts recovery' = mx" using fail(3) le by (simp split: if_splits)
          with fail every le show ?thesis by (intro disjI2) simp
        qed
      qed
    qed
  qed
qed

text \<open>
  Claim C8. When a recovery attempt raises, because the resume capability throws \<open>m\<close>
  or because the resumed source rejects with \<open>m\<close> after some events, \<^verbatim>\<open>attemptRecovery\<close>
  returns a stalled result with \<open>m\<close> as its error and \<open>recoverySuccess = False\<close>, and
  the loop records the attempt as failed and goes on with the next attempt. The loop
  has no way to throw: its result is the pair of result and recovery record.
\<close>

theorem raising_attempt_is_absorbed:
  assumes "resume tid attempt = Inl m
           \<or> (\<exists>events es. resume tid attempt = Inr events \<and> delivers events es (Threw m))"
  shows "attemptRecovery resume tid attempt
         = Some \<lparr>items = [], threadId = Some tid, finalResponse = [], usage = None,
                 stalled = True, error = Some m, recoverySuccess = False\<rparr>
       \<and> (attempt \<le> maxRecoveryAttempts \<longrightarrow>
            recovery_loop resume tid maxRecoveryAttempts attempt result recovery
            = recovery_loop resume tid maxRecoveryAttempts (attempt + 1) result
                (recovery\<lparr>attempts := attempt, lastError := Some (failure_reason (Some m))\<rparr>))"
proof -
  have a: "attemptRecovery resume tid attempt = Some (recovery_error_result tid m)"
    using assms
  proof
    assume "resume tid attempt = Inl m"
    then show ?thesis by (rule attemptRecovery_throws)
  next
    assume "\<exists>events es. resume tid attempt = Inr events \<and> delivers events es (Threw m)"
    then obtain events es where "resume tid attempt = Inr events"
      and "delivers events es (Threw m)" by blast
    then show ?thesis
      using attemptRecovery_rejected process_delivers_Threw by blast
  qed
  have f: "\<not> recoverySuccess (recovery_error_result tid m)"
    and e: "error (recovery_error_result tid m) = Some m"
    by (simp_all add: recovery_error_result_def)
  show ?thesis
    using a recovery_loop_failure [OF _ a f, of maxRecoveryAttempts result recovery]
    by (simp add: e) (simp add: recovery_error_result_def)
qed


theorem raising_attempt_is_absorbed_witness:
  "(scripted_resume [Inl ''connection refused'', Inr [Event (ItemCompleted (AgentMessage ''done''))]]
      ''X'' 1 = Inl ''connection refused''
    \<or> (\<exists>events es.
          scripted_resume
            [Inl ''connection refused'', Inr [Event (ItemCompleted (AgentMessage ''done''))]]
            ''X'' 1 = Inr events
          \<and> delivers events es (Threw ''connection refused'')))
   \<and> attemptRecovery
        (scripted_resume
           [Inl ''connection refused'', Inr [Event (ItemCompleted (AgentMessage ''done''))]])
        ''X'' 1
      = Some \<lparr>items = [], threadId = Some ''X'', finalResponse = [], usage = None,
              stalled = True, error = Some ''connection refused'', recoverySuccess = False\<rparr>
   \<and> recovery_loop
        (scripted_resume
           [Inl ''connection refused'', Inr [Event (ItemCompleted (AgentMessage ''done''))]])
        ''X'' 2 1
        \<lparr>items = [Reasoning ''a''], threadId = Some ''X'', finalResponse = [], usage = None,
         stalled = True, error = None\<rparr>
        \<lparr>attempted = True, attempts = 0, recovered = False, lastError = None\<rparr>
      = Some
          (\<lparr>items = [Reasoning ''a'', AgentMessage ''done''], threadId = Some ''X'',
            finalResponse = ''done'', usage = None, stalled = False, error = None\<rparr>,
           \<lparr>attempted = True, attempts = 2, recovered = True,
            lastError = Some ''connection refused''\<rparr>)"
proof -
  let ?resume = "scripted_resume
           [Inl ''connection refused'', Inr [Event (ItemCompleted (AgentMessage ''done''))]]"
  let ?result = "\<lparr>items = [Reasoning ''a''], threadId = Some ''X'', finalResponse = [],
         usage = None, stalled = True, error = None\<rparr>"
  let ?recovery = "\<lparr>attempted = True, attempts = 0, recovered = False, lastError = None\<rparr>"
  have h: "?resume ''X'' 1 = Inl ''connection refused''
    \<or> (\<exists>events es. ?resume ''X'' 1 = Inr events
          \<and> delivers events es (Threw ''connection refused''))"
    by (simp add: scripted_resume_def)
  have rest: "recovery_loop ?resume ''X'' 2 2 ?result
           (?recovery\<lparr>attempts := 1, lastError := Some (failure_reason (Some ''connection refused''))\<rparr>)
      = Some
          (\<lparr>items = [Reasoning ''a'', AgentMessage ''done''], threadId = Some ''X'',
            finalResponse = ''done'', usage = None, stalled = False, error = None\<rparr>,
           \<lparr>attempted = True, attempts = 2, recovered = True,
            lastError = Some ''connection refused''\<rparr>)"
    by code_simp
  from raising_attempt_is_absorbed
         [where resume = ?resume and tid = "''X''" and attempt = 1
            and m = "''connection refused''" and maxRecoveryAttempts = 2
            and result = ?result and recovery = ?recovery, OF h] h rest
  show ?thesis by simp
qed

text \<open>
  Claim C6. When the first pass stalls and its result carries no (truthy) thread id,
  and the caller supplies none, no recovery is attempted: the recovery record keeps
  \<open>attempted = False\<close>. The \<^verbatim>\<open>run\<close> tool, whose callback supplies no id, and the
  \<^verbatim>\<open>reply\<close> tool called with an empty id then report \<open>TIMEOUT\<close> with
  \<open>needsUserInput = True\<close> and no recovery record. In every summary the recovery record
  is present exactly when its \<open>attempted\<close> flag is set.
\<close>

theorem stall_without_session_id:
  assumes "processEventsWithStallDetection events = Some (Inr result)"
      and "stalled result"
      and "\<not> truthy (threadId result)"
  shows "(\<not> truthy getThreadId \<longrightarrow>
            runWithStallRecovery events resume getThreadId n
            = Some (Inr (result,
                 \<lparr>attempted = False, attempts = 0, recovered = False, lastError = None\<rparr>)))
       \<and> (\<exists>s. run_tool (Inr events) resume maxRecoveryAttempts = Some (TIMEOUT, Summary s)
              \<and> recovery_field s = None \<and> needsUserInput s)
       \<and> (\<exists>s. reply_tool [] (Inr events) resume maxRecoveryAttempts = Some (TIMEOUT, Summary s)
              \<and> recovery_field s = None \<and> needsUserInput s)
       \<and> (\<exists>s. snd (build_summary t r recovery) = Summary s
              \<and> recovery_field s = (if attempted recovery then Some recovery else None))"
proof -
  have r: "runWithStallRecovery events resume g k = Some (Inr (result, initial_recovery))"
    if "\<not> truthy g" for g k
    using assms that by (simp add: runWithStallRecovery_def js_or_def)
  have b: "\<exists>s. build_summary t result initial_recovery = (TIMEOUT, Summary s)
              \<and> recovery_field s = None \<and> needsUserInput s" for t
    using assms(2) by (simp add: build_summary_def initial_recovery_def Let_def)
  have g: "\<exists>s. snd (build_summary t r recovery) = Summary s
              \<and> recovery_field s = (if attempted recovery then Some recovery else None)"
    by (simp add: build_summary_def Let_def)
  have "\<exists>s. run_tool (Inr events) resume maxRecoveryAttempts = Some (TIMEOUT, Summary s)
              \<and> recovery_field s = None \<and> needsUserInput s"
    using b [of "threadId result"] by (simp add: run_tool_def r)
  moreover have "\<exists>s. reply_tool [] (Inr events) resume maxRecoveryAttempts
                       = Some (TIMEOUT, Summary s)
              \<and> recovery_field s = None \<and> needsUserInput s"
    using b [of "Some []"] by (simp add: reply_tool_def r)
  ultimately show ?thesis using r [of getThreadId n] g
    by (simp add: initial_recovery_def)
qed

theorem stall_without_session_id_witness:
  "processEventsWithStallDetection
     (script_source [Event TurnStarted, Event (ItemCompleted (Reasoning ''thinking'')), TimedOut])
   = Some (Inr \<lparr>items = [Reasoning ''thinking''], threadId = None, finalResponse = [],
                usage = None, stalled = True, error = None\<rparr>)
   \<and> run_tool
       (Inr (script_source
               [Event TurnStarted, Event (ItemCompleted (Reasoning ''thinking'')), TimedOut]))
       (scripted_resume [Inr [Event (ItemCompleted (AgentMessage ''done''))]]) (Some 2)
     = Some (TIMEOUT,
             Summary
               \<lparr>summary_threadId = None, content = [],
                stats = \<lparr>totalItems = 1, commands = 0, fileChanges = 0, mcpCalls = 0,
                         stats_usage = None\<rparr>,
                filesModified = [], recovery_field = None, needsUserInput = True\<rparr>)"
proof -
  let ?events = "script_source
               [Event TurnStarted, Event (ItemCompleted (Reasoning ''thinking'')), TimedOut]"
  let ?result = "\<lparr>items = [Reasoning ''thinking''], threadId = None, finalResponse = [],
                usage = None, stalled = True, error = None\<rparr>"
  have h1: "processEventsWithStallDetection ?events = Some (Inr ?result)"
    by code_simp
  have h2: "stalled ?result" by simp
  have h3: "\<not> truthy (threadId ?result)" by simp
  have "\<not> truthy None" by simp
  with stall_without_session_id
         [OF h1 h2 h3, of None "scripted_resume [Inr [Event (ItemCompleted (AgentMessage ''done''))]]" 2]
  have "runWithStallRecovery ?events
          (scripted_resume [Inr [Event (ItemCompleted (AgentMessage ''done''))]]) None 2
        = Some (Inr (?result,
                 \<lparr>attempted = False, attempts = 0, recovered = False, lastError = None\<rparr>))"
    by blast
  then have "run_tool (Inr ?events)
       (scripted_resume [Inr [Event (ItemCompleted (AgentMessage ''done''))]]) (Some 2)
     = Some (TIMEOUT,
             Summary
               \<lparr>summary_threadId = None, content = [],
                stats = \<lparr>totalItems = 1, commands = 0, fileChanges = 0, mcpCalls = 0,
                         stats_usage = None\<rparr>,
                filesModified = [], recovery_field = None, needsUserInput = True\<rparr>)"
    by (simp add: run_tool_def build_summary_def)
  with h1 show ?thesis by simp
qed


lemma runWithStallRecovery_plain:
  assumes "processEventsWithStallDetection events = Some (Inr result)"
      and "\<not> (stalled result \<and> truthy (js_or (threadId result) getThreadId))"
  shows "runWithStallRecovery events resume getThreadId mx
         = Some (Inr (result, initial_recovery))"
  using assms by (auto simp: runWithStallRecovery_def Let_def split: option.splits)

lemma runWithStallRecovery_recovering:
  assumes "processEventsWithStallDetection events = Some (Inr result)"
      and "stalled result" and "truthy (js_or (threadId result) getThreadId)"
  shows "\<exists>tid. js_or (threadId result) getThreadId = Some tid
           \<and> runWithStallRecovery events resume getThreadId mx
             = map_option Inr
                 (recovery_loop resume tid mx 1 result (initial_recovery\<lparr>attempted := True\<rparr>))"
proof (cases "js_or (threadId result) getThreadId")
  case None
  with assms(3) show ?thesis by simp
next
  case (Some tid)
  with assms show ?thesis by (simp add: runWithStallRecovery_def)
qed

lemma recovery_trace_done:
  "\<not> attempt \<le> mx \<Longrightarrow> recovery_trace resume tid mx attempt recovery = []"
  by (subst recovery_trace.simps) simp

lemma recovery_trace_diverges:
  "attempt \<le> mx \<Longrightarrow> attemptRecovery resume tid attempt = None \<Longrightarrow>
   recovery_trace resume tid mx attempt recovery = [recovery\<lparr>attempts := attempt\<rparr>]"
  by (subst recovery_trace.simps) simp

lemma recovery_trace_success:
  "attempt \<le> mx \<Longrightarrow> attemptRecovery resume tid attempt = Some rr \<Longrightarrow> recoverySuccess rr \<Longrightarrow>
   recovery_trace resume tid mx attempt recovery
   = [recovery\<lparr>attempts := attempt\<rparr>, recovery\<lparr>attempts := attempt, recovered := True\<rparr>]"
  by (subst recovery_trace.simps) (simp add: Let_def)

lemma recovery_trace_failure:
  "attempt \<le> mx \<Longrightarrow> attemptRecovery resume tid attempt = Some rr \<Longrightarrow> \<not> recoverySuccess rr \<Longrightarrow>
   recovery_trace resume tid mx attempt recovery
   = recovery\<lparr>attempts := attempt\<rparr>
     # recovery\<lparr>attempts := attempt, lastError := Some (failure_reason (error rr))\<rparr>
     # recovery_trace resume tid mx (attempt + 1)
         (recovery\<lparr>attempts := attempt, lastError := Some (failure_reason (error rr))\<rparr>)"
  by (subst recovery_trace.simps) (simp add: Let_def)

lemma recovery_trace_elems:
  "r \<in> set (recovery_trace resume tid mx attempt recovery) \<Longrightarrow>
   attempt \<le> attempts r \<and> attempts r \<le> mx \<and> attempted r = attempted recovery"
proof (induction resume tid mx attempt recovery rule: recovery_trace.induct)
  case (1 resume tid mx attempt recovery)
  show ?case
  proof (cases "attempt \<le> mx")
    case False
    with "1.prems" show ?thesis by (simp add: recovery_trace_done)
  next
    case le: True
    show ?thesis
    proof (cases "attemptRecovery resume tid attempt")
      case None
      with le "1.prems" show ?thesis by (auto simp: recovery_trace_diverges)
    next
      case (Some rr)
      show ?thesis
      proof (cases "recoverySuccess rr")
        case True
        with le Some "1.prems" show ?thesis by (auto simp: recovery_trace_success)
      next
        case False
        let ?rec = "recovery\<lparr>attempts := attempt, lastError := Some (failure_reason (error rr))\<rparr>"
        from "1.prems" consider "r = recovery\<lparr>attempts := attempt\<rparr>" | "r = ?rec"
          | "r \<in> set (recovery_trace resume tid mx (attempt + 1) ?rec)"
          by (auto simp: recovery_trace_failure [OF le Some False])
        then show ?thesis
        proof cases
          case 1
          with le show ?thesis by simp
        next
          case 2
          with le show ?thesis by simp
        next
          case 3
          from "1.IH" [OF le refl Some False refl 3] show ?thesis by simp
        qed
      qed
    qed
  qed
qed

lemma recovery_trace_sorted:
  "sorted (map attempts (recovery_trace resume tid mx attempt recovery))"
proof (induction resume tid mx attempt recovery rule: recovery_trace.induct)
  case (1 resume tid mx attempt recovery)
  show ?case
  proof (cases "attempt \<le> mx")
    case False
    then show ?thesis by (simp add: recovery_trace_done)
  next
    case le: True
    show ?thesis
    proof (cases "attemptRecovery resume tid attempt")
      case None
      with le show ?thesis by (simp add: recovery_trace_diverges)
    next
      case (Some rr)
      show ?thesis
      proof (cases "recoverySuccess rr")
        case True
        with le Some show ?thesis by (simp add: recovery_trace_success)
      next
        case False
        let ?rec = "recovery\<lparr>attempts := attempt, lastError := Some (failure_reason (error rr))\<rparr>"
        have later: "attempt \<le> attempts r"
          if "r \<in> set (recovery_trace resume tid mx (attempt + 1) ?rec)" for r
          using recovery_trace_elems [OF that] by simp
        have rest: "sorted (map attempts (recovery_trace resume tid mx (attempt + 1) ?rec))"
          by (rule "1.IH" [OF le refl Some False refl])
        have "\<forall>n\<in>set (map attempts (recovery_trace resume tid mx (attempt + 1) ?rec)).
                attempt \<le> n"
          using later by auto
        with rest show ?thesis
          unfolding recovery_trace_failure [OF le Some False] by simp
      qed
    qed
  qed
qed

lemma set_butlast_Cons2: "set (butlast (x # y # zs)) \<subseteq> {x, y} \<union> set (butlast zs)"
  by (cases zs) auto

lemma recovery_trace_recovered:
  "\<not> recovered recovery \<Longrightarrow>
   r \<in> set (butlast (recovery_trace resume tid mx attempt recovery)) \<Longrightarrow> \<not> recovered r"
proof (induction resume tid mx attempt recovery rule: recovery_trace.induct)
  case (1 resume tid mx attempt recovery)
  show ?case
  proof (cases "attempt \<le> mx")
    case False
    with "1.prems" show ?thesis by (simp add: recovery_trace_done)
  next
    case le: True
    show ?thesis
    proof (cases "attemptRecovery resume tid attempt")
      case None
      with le "1.prems" show ?thesis by (simp add: recovery_trace_diverges)
    next
      case (Some rr)
      show ?thesis
      proof (cases "recoverySuccess rr")
        case True
        with le Some "1.prems" show ?thesis by (auto simp: recovery_trace_success)
      next
        case False
        let ?rec = "recovery\<lparr>attempts := attempt, lastError := Some (failure_reason (error rr))\<rparr>"
        have "r \<in> set (butlast (recovery\<lparr>attempts := attempt\<rparr> # ?rec
                  # recovery_trace resume tid mx (attempt + 1) ?rec))"
          using "1.prems"(2) by (simp only: recovery_trace_failure [OF le Some False])
        with set_butlast_Cons2 [of "recovery\<lparr>attempts := attempt\<rparr>" ?rec
               "recovery_trace resume tid mx (attempt + 1) ?rec"]
        have "r \<in> {recovery\<lparr>attempts := attempt\<rparr>, ?rec}
                  \<union> set (butlast (recovery_trace resume tid mx (attempt + 1) ?rec))"
          by (rule subsetD)
        then consider "r = recovery\<lparr>attempts := attempt\<rparr>" | "r = ?rec"
          | "r \<in> set (butlast (recovery_trace resume tid mx (attempt + 1) ?rec))"
          by blast
        then show ?thesis
        proof cases
          case 1
          with "1.prems"(1) show ?thesis by simp
        next
          case 2
          with "1.prems"(1) show ?thesis by simp
        next
          case 3
          have "\<not> recovered ?rec" using "1.prems"(1) by simp
          from "1.IH" [OF le refl Some False refl this 3] show ?thesis .
        qed
      qed
    qed
  qed
qed

lemma recovery_loop_last:
  "recovery_loop resume tid mx attempt result recovery = Some (final, recovery') \<Longrightarrow>
   recovery' = last (recovery # recovery_trace resume tid mx attempt recovery)"
proof (induction resume tid mx attempt result recovery rule: recovery_loop.induct)
  case (1 resume tid mx attempt result recovery)
  show ?case
  proof (cases "attempt \<le> mx")
    case False
    with "1.prems" show ?thesis by (simp add: recovery_loop_done recovery_trace_done)
  next
    case le: True
    show ?thesis
    proof (cases "attemptRecovery resume tid attempt")
      case None
      with le "1.prems" show ?thesis by (simp add: recovery_loop_diverges)
    next
      case (Some rr)
      show ?thesis
      proof (cases "recoverySuccess rr")
        case True
        with le Some "1.prems" show ?thesis
          by (simp add: recovery_loop_success recovery_trace_success)
      next
        case False
        let ?rec = "recovery\<lparr>attempts := attempt, lastError := Some (failure_reason (error rr))\<rparr>"
        have "recovery_loop resume tid mx (attempt + 1) result ?rec = Some (final, recovery')"
          using "1.prems" by (simp add: recovery_loop_failure [OF le Some False])
        from "1.IH" [OF le refl Some False this]
        show ?thesis by (simp add: recovery_trace_failure [OF le Some False])
      qed
    qed
  qed
qed

section \<open>Merging and the recovery record\<close>

text \<open>
  Claim C3, as stated: the cumulative item list is the original pass's items followed
  by each recovery pass's items in attempt order, none dropped. The loop merges only
  on success. Below, the original pass completes two items and stalls; the first
  recovery pass completes the item \<^verbatim>\<open>web_search d\<close> and stalls; the second completes a
  message and ends. The cumulative list holds the two original items and the message:
  the first recovery pass's item is not in it.
\<close>

theorem failed_pass_items_dropped_counterexample:
  "attemptRecovery
     (scripted_resume
        [Inr [Event (ItemCompleted (WebSearch ''d'')), TimedOut],
         Inr [Event (ItemCompleted (AgentMessage ''c''))]])
     ''X'' 1
   = Some \<lparr>items = [WebSearch ''d''], threadId = None, finalResponse = [], usage = None,
           stalled = True, error = None, recoverySuccess = False\<rparr>
   \<and> runWithStallRecovery
       (script_source
          [Event (ThreadStarted ''X''),
           Event (ItemCompleted (CommandExecution ''ls'' ''completed'' (Some 0))),
           Event (ItemCompleted (Reasoning ''b'')), TimedOut])
       (scripted_resume
          [Inr [Event (ItemCompleted (WebSearch ''d'')), TimedOut],
           Inr [Event (ItemCompleted (AgentMessage ''c''))]])
       None 2
     = Some (Inr
         (\<lparr>items = [CommandExecution ''ls'' ''completed'' (Some 0), Reasoning ''b'',
                    AgentMessage ''c''],
           threadId = Some ''X'', finalResponse = ''c'', usage = None, stalled = False,
           error = None\<rparr>,
          \<lparr>attempted = True, attempts = 2, recovered = True,
           lastError = Some ''Still stalled after recovery attempt''\<rparr>))"
  by code_simp

text \<open>
  What a call that returns has merged: with \<open>recovered = True\<close> the items of the
  original pass followed by those of the pass of attempt \<open>attempts\<close>, which did not
  stall; otherwise the items of the original pass.
\<close>

lemma returned_run_items:
  assumes "processEventsWithStallDetection events = Some (Inr result)"
      and "runWithStallRecovery events resume getThreadId maxRecoveryAttempts
           = Some (Inr (final, recovery))"
  shows "(recovered recovery \<longrightarrow>
            (\<exists>tid events' pass.
                js_or (threadId result) getThreadId = Some tid
              \<and> resume tid (attempts recovery) = Inr events'
              \<and> processEventsWithStallDetection events' = Some (Inr pass)
              \<and> \<not> stalled pass
              \<and> items final = items result @ items pass))
       \<and> (\<not> recovered recovery \<longrightarrow> items final = items result)"
proof (cases "stalled result \<and> truthy (js_or (threadId result) getThreadId)")
  case False
  from runWithStallRecovery_plain [OF assms(1) False, of resume maxRecoveryAttempts] assms(2)
  have "final = result" and "recovery = initial_recovery" by simp_all
  then show ?thesis by (simp add: initial_recovery_def)
next
  case True
  then have st: "stalled result" and tr: "truthy (js_or (threadId result) getThreadId)"
    by simp_all
  from runWithStallRecovery_recovering [OF assms(1) st tr, of resume maxRecoveryAttempts]
  obtain tid where tid: "js_or (threadId result) getThreadId = Some tid"
    and run: "runWithStallRecovery events resume getThreadId maxRecoveryAttempts
             = map_option Inr
                 (recovery_loop resume tid maxRecoveryAttempts 1 result
                    (initial_recovery\<lparr>attempted := True\<rparr>))"
    by blast
  from run assms(2)
  have "map_option Inr
          (recovery_loop resume tid maxRecoveryAttempts 1 result
             (initial_recovery\<lparr>attempted := True\<rparr>))
        = Some (Inr (final, recovery) :: string + event_processing_result \<times> recovery_info)"
    by simp
  then have loop: "recovery_loop resume tid maxRecoveryAttempts 1 result
                (initial_recovery\<lparr>attempted := True\<rparr>) = Some (final, recovery)"
    by auto
  from recovery_loop_result [OF loop]
  consider
    (succ) k rr where "attemptRecovery resume tid k = Some rr" "recoverySuccess rr"
      "final = merge_recovery result rr tid" "attempts recovery = k" "recovered recovery"
  | (fail) "final = result"
      "recovered recovery = recovered (initial_recovery\<lparr>attempted := True\<rparr>)"
    by blast
  then show ?thesis
  proof cases
    case succ
    from attemptRecovery_success [OF succ(1,2)]
    obtain events' pass where "resume tid k = Inr events'"
      and "processEventsWithStallDetection events' = Some (Inr pass)"
      and "\<not> stalled pass" and "rr = with_recoverySuccess pass True"
      by blast
    moreover from this succ(3) have "items final = items result @ items pass"
      by (simp add: merge_recovery_def with_recoverySuccess_def)
    ultimately show ?thesis using tid succ(4,5) by blast
  next
    case fail
    then show ?thesis by (simp add: initial_recovery_def)
  qed
qed

lemma pass_fails_attemptRecovery:
  "pass_fails resume tid attempt \<longleftrightarrow>
   (\<exists>rj. attemptRecovery resume tid attempt = Some rj \<and> \<not> recoverySuccess rj)"
  by (auto simp: pass_fails_def attemptRecovery_def recovery_error_result_def
      with_recoverySuccess_def split: sum.splits option.splits)

lemma recovery_loop_first_success:
  assumes "attempt \<le> k" and "k \<le> mx"
      and "\<forall>j. attempt \<le> j \<and> j < k \<longrightarrow> pass_fails resume tid j"
      and "attemptRecovery resume tid k = Some rr" and "recoverySuccess rr"
  shows "\<exists>recovery'.
           recovery_loop resume tid mx attempt result recovery
           = Some (merge_recovery result rr tid, recovery')
         \<and> attempts recovery' = k \<and> recovered recovery'
         \<and> attempted recovery' = attempted recovery"
  using assms(1,3)
proof (induction "nat (k - attempt)" arbitrary: attempt recovery)
  case 0
  then have "attempt = k" by simp
  with assms(2,4,5) show ?case by (simp add: recovery_loop_success)
next
  case (Suc n)
  then have lt: "attempt < k" and le: "attempt \<le> mx" using assms(2) by simp_all
  from Suc.prems(2) lt have "pass_fails resume tid attempt" by simp
  then obtain rj where rj: "attemptRecovery resume tid attempt = Some rj"
    and nf: "\<not> recoverySuccess rj"
    unfolding pass_fails_attemptRecovery by blast
  let ?rec = "recovery\<lparr>attempts := attempt, lastError := Some (failure_reason (error rj))\<rparr>"
  have n: "n = nat (k - (attempt + 1))" using Suc.hyps(2) by simp
  have a: "attempt + 1 \<le> k" using lt by simp
  have b: "\<forall>j. attempt + 1 \<le> j \<and> j < k \<longrightarrow> pass_fails resume tid j"
    using Suc.prems(2) by simp
  from Suc.hyps(1) [OF n a b, of ?rec]
  show ?case by (simp add: recovery_loop_failure [OF le rj nf])
qed

lemma recovery_loop_all_fail:
  assumes "\<forall>j. attempt \<le> j \<and> j \<le> mx \<longrightarrow> pass_fails resume tid j"
  shows "\<exists>recovery'.
           recovery_loop resume tid mx attempt result recovery = Some (result, recovery')
         \<and> recovered recovery' = recovered recovery
         \<and> attempted recovery' = attempted recovery
         \<and> attempts recovery' = (if attempt \<le> mx then mx else attempts recovery)"
  using assms
proof (induction "nat (mx + 1 - attempt)" arbitrary: attempt recovery)
  case 0
  then have "\<not> attempt \<le> mx" by simp
  then show ?case by (simp add: recovery_loop_done)
next
  case (Suc n)
  then have le: "attempt \<le> mx" by simp
  with Suc.prems have "pass_fails resume tid attempt" by simp
  then obtain rj where rj: "attemptRecovery resume tid attempt = Some rj"
    and nf: "\<not> recoverySuccess rj"
    unfolding pass_fails_attemptRecovery by blast
  let ?rec = "recovery\<lparr>attempts := attempt, lastError := Some (failure_reason (error rj))\<rparr>"
  have n: "n = nat (mx + 1 - (attempt + 1))" using Suc.hyps(2) by simp
  have b: "\<forall>j. attempt + 1 \<le> j \<and> j \<le> mx \<longrightarrow> pass_fails resume tid j"
    using Suc.prems by simp
  from Suc.hyps(1) [OF n b, of ?rec] le
  show ?case by (auto simp: recovery_loop_failure [OF le rj nf])
qed

lemma runWithStallRecovery_enters_loop:
  assumes "processEventsWithStallDetection events = Some (Inr result)"
      and "stalled result" and "js_or (threadId result) getThreadId = Some tid" and "tid \<noteq> []"
  shows "runWithStallRecovery events resume getThreadId mx
         = map_option Inr
             (recovery_loop resume tid mx 1 result (initial_recovery\<lparr>attempted := True\<rparr>))"
  using assms by (simp add: runWithStallRecovery_def)

text \<open>
  Claim C3, amended: the cumulative item list is the original pass's items followed by
  the items of the first recovery pass that ends without stalling. Precisely, for a
  first pass that returned \<open>result\<close>:
  \<^item> when it did not stall, or no thread id is available, the call returns \<open>result\<close>
    unchanged;
  \<^item> when it stalled with a thread id, the passes of the attempts before \<open>k\<close> all
    fail (stall or raise) and the pass of attempt \<open>k\<close>, within the bound, returns
    \<open>pass\<close> without stalling, the call returns with the items of \<open>result\<close> followed
    by the items of \<open>pass\<close>, \<open>recovered = True\<close> and \<open>attempts = k\<close>: the items of the
    failed passes are not part of the list;
  \<^item> when it stalled with a thread id and the pass of every attempt up to the bound
    fails, the call returns \<open>result\<close>, with its items unchanged and \<open>recovered = False\<close>.
  In particular pre-stall items \<open>[A, B]\<close> and a successful recovery pass with items
  \<open>[C]\<close> give exactly \<open>[A, B, C]\<close>.
\<close>

theorem merged_items:
  assumes "processEventsWithStallDetection events = Some (Inr result)"
  shows "(\<not> (stalled result \<and> truthy (js_or (threadId result) getThreadId)) \<longrightarrow>
            runWithStallRecovery events resume getThreadId maxRecoveryAttempts
            = Some (Inr (result,
                 \<lparr>attempted = False, attempts = 0, recovered = False, lastError = None\<rparr>)))
       \<and> (stalled result \<and> js_or (threadId result) getThreadId = Some tid \<and> tid \<noteq> []
          \<and> 1 \<le> k \<and> k \<le> maxRecoveryAttempts
          \<and> (\<forall>j. 1 \<le> j \<and> j < k \<longrightarrow> pass_fails resume tid j)
          \<and> resume tid k = Inr events'
          \<and> processEventsWithStallDetection events' = Some (Inr pass)
          \<and> \<not> stalled pass \<longrightarrow>
            (\<exists>recovery.
                runWithStallRecovery events resume getThreadId maxRecoveryAttempts
                = Some (Inr
                    (\<lparr>items = items result @ items pass, threadId = Some tid,
                      finalResponse = finalResponse pass, usage = usage pass,
                      stalled = False, error = error pass\<rparr>,
                     recovery))
              \<and> attempted recovery \<and> recovered recovery \<and> attempts recovery = k))
       \<and> (stalled result \<and> js_or (threadId result) getThreadId = Some tid \<and> tid \<noteq> []
          \<and> (\<forall>j. 1 \<le> j \<and> j \<le> maxRecoveryAttempts \<longrightarrow> pass_fails resume tid j) \<longrightarrow>
            (\<exists>recovery.
                runWithStallRecovery events resume getThreadId maxRecoveryAttempts
                = Some (Inr (result, recovery))
              \<and> attempted recovery \<and> \<not> recovered recovery))"
proof (intro conjI impI)
  assume "\<not> (stalled result \<and> truthy (js_or (threadId result) getThreadId))"
  from runWithStallRecovery_plain [OF assms this]
  show "runWithStallRecovery events resume getThreadId maxRecoveryAttempts
            = Some (Inr (result,
                 \<lparr>attempted = False, attempts = 0, recovered = False, lastError = None\<rparr>))"
    by (simp add: initial_recovery_def)
next
  assume a: "stalled result \<and> js_or (threadId result) getThreadId = Some tid \<and> tid \<noteq> []
          \<and> 1 \<le> k \<and> k \<le> maxRecoveryAttempts
          \<and> (\<forall>j. 1 \<le> j \<and> j < k \<longrightarrow> pass_fails resume tid j)
          \<and> resume tid k = Inr events'
          \<and> processEventsWithStallDetection events' = Some (Inr pass)
          \<and> \<not> stalled pass"
  then have run: "runWithStallRecovery events resume getThreadId maxRecoveryAttempts
         = map_option Inr
             (recovery_loop resume tid maxRecoveryAttempts 1 result
                (initial_recovery\<lparr>attempted := True\<rparr>))"
    using runWithStallRecovery_enters_loop [OF assms] by blast
  from a have ar: "attemptRecovery resume tid k = Some (with_recoverySuccess pass True)"
    using attemptRecovery_returns [of resume tid k events' pass] by simp
  have ok: "recoverySuccess (with_recoverySuccess pass True)"
    by (simp add: with_recoverySuccess_def)
  from a have k1: "1 \<le> k" and k2: "k \<le> maxRecoveryAttempts"
    and before: "\<forall>j. 1 \<le> j \<and> j < k \<longrightarrow> pass_fails resume tid j" by blast+
  from recovery_loop_first_success [OF k1 k2 before ar ok, of result "initial_recovery\<lparr>attempted := True\<rparr>"]
  obtain recovery' where loop: "recovery_loop resume tid maxRecoveryAttempts 1 result
                (initial_recovery\<lparr>attempted := True\<rparr>)
           = Some (merge_recovery result (with_recoverySuccess pass True) tid, recovery')"
    and props: "attempts recovery' = k" "recovered recovery'" "attempted recovery'"
    by auto
  have m: "merge_recovery result (with_recoverySuccess pass True) tid
           = \<lparr>items = items result @ items pass, threadId = Some tid,
                      finalResponse = finalResponse pass, usage = usage pass,
                      stalled = False, error = error pass\<rparr>"
    using a by (simp add: merge_recovery_def with_recoverySuccess_def)
  show "\<exists>recovery.
                runWithStallRecovery events resume getThreadId maxRecoveryAttempts
                = Some (Inr
                    (\<lparr>items = items result @ items pass, threadId = Some tid,
                      finalResponse = finalResponse pass, usage = usage pass,
                      stalled = False, error = error pass\<rparr>,
                     recovery))
              \<and> attempted recovery \<and> recovered recovery \<and> attempts recovery = k"
    using props by (intro exI [of _ recovery']) (simp add: run loop m)
next
  assume a: "stalled result \<and> js_or (threadId result) getThreadId = Some tid \<and> tid \<noteq> []
          \<and> (\<forall>j. 1 \<le> j \<and> j \<le> maxRecoveryAttempts \<longrightarrow> pass_fails resume tid j)"
  then have run: "runWithStallRecovery events resume getThreadId maxRecoveryAttempts
         = map_option Inr
             (recovery_loop resume tid maxRecoveryAttempts 1 result
                (initial_recovery\<lparr>attempted := True\<rparr>))"
    using runWithStallRecovery_enters_loop [OF assms] by blast
  from a have every: "\<forall>j. 1 \<le> j \<and> j \<le> maxRecoveryAttempts \<longrightarrow> pass_fails resume tid j"
    by blast
  from recovery_loop_all_fail [OF every, of result "initial_recovery\<lparr>attempted := True\<rparr>"]
  obtain recovery' where loop: "recovery_loop resume tid maxRecoveryAttempts 1 result
                (initial_recovery\<lparr>attempted := True\<rparr>) = Some (result, recovery')"
    and props: "recovered recovery' = recovered (initial_recovery\<lparr>attempted := True\<rparr>)"
       "attempted recovery' = attempted (initial_recovery\<lparr>attempted := True\<rparr>)"
    by auto
  show "\<exists>recovery.
                runWithStallRecovery events resume getThreadId maxRecoveryAttempts
                = Some (Inr (result, recovery))
              \<and> attempted recovery \<and> \<not> recovered recovery"
    using props loop by (intro exI [of _ recovery']) (simp add: run initial_recovery_def)
qed


theorem merged_items_witness:
  "processEventsWithStallDetection
     (script_source
        [Event (ThreadStarted ''X''),
         Event (ItemCompleted (CommandExecution ''ls'' ''completed'' (Some 0))),
         Event (ItemCompleted (Reasoning ''b'')), TimedOut])
   = Some (Inr \<lparr>items = [CommandExecution ''ls'' ''completed'' (Some 0), Reasoning ''b''],
                threadId = Some ''X'', finalResponse = [], usage = None, stalled = True,
                error = None\<rparr>)
   \<and> pass_fails
       (scripted_resume
          [Inr [Event (ItemCompleted (WebSearch ''d'')), TimedOut],
           Inr [Event (ItemCompleted (AgentMessage ''c''))]])
       ''X'' 1
   \<and> processEventsWithStallDetection (script_source [Event (ItemCompleted (AgentMessage ''c''))])
     = Some (Inr \<lparr>items = [AgentMessage ''c''], threadId = None, finalResponse = ''c'',
                  usage = None, stalled = False, error = None\<rparr>)
   \<and> (\<exists>recovery.
         runWithStallRecovery
           (script_source
              [Event (ThreadStarted ''X''),
               Event (ItemCompleted (CommandExecution ''ls'' ''completed'' (Some 0))),
               Event (ItemCompleted (Reasoning ''b'')), TimedOut])
           (scripted_resume
              [Inr [Event (ItemCompleted (WebSearch ''d'')), TimedOut],
               Inr [Event (ItemCompleted (AgentMessage ''c''))]])
           None 2
         = Some (Inr
             (\<lparr>items = [CommandExecution ''ls'' ''completed'' (Some 0), Reasoning ''b'',
                        AgentMessage ''c''],
               threadId = Some ''X'', finalResponse = ''c'', usage = None, stalled = False,
               error = None\<rparr>,
              recovery))
       \<and> attempted recovery \<and> recovered recovery \<and> attempts recovery = 2)"
proof -
  let ?events = "script_source
        [Event (ThreadStarted ''X''),
         Event (ItemCompleted (CommandExecution ''ls'' ''completed'' (Some 0))),
         Event (ItemCompleted (Reasoning ''b'')), TimedOut]"
  let ?resume = "scripted_resume
          [Inr [Event (ItemCompleted (WebSearch ''d'')), TimedOut],
           Inr [Event (ItemCompleted (AgentMessage ''c''))]]"
  let ?result = "\<lparr>items = [CommandExecution ''ls'' ''completed'' (Some 0), Reasoning ''b''],
                threadId = Some ''X'', finalResponse = [], usage = None, stalled = True,
                error = None\<rparr>"
  let ?events' = "script_source [Event (ItemCompleted (AgentMessage ''c''))]"
  let ?pass = "\<lparr>items = [AgentMessage ''c''], threadId = None, finalResponse = ''c'',
                  usage = None, stalled = False, error = None\<rparr>"
  have h1: "processEventsWithStallDetection ?events = Some (Inr ?result)"
    by code_simp
  have pf: "pass_fails ?resume ''X'' 1"
    by code_simp
  have before: "\<forall>j. 1 \<le> j \<and> j < 2 \<longrightarrow> pass_fails ?resume ''X'' j"
  proof (intro allI impI)
    fix j :: int assume "1 \<le> j \<and> j < 2"
    then have "j = 1" by simp
    with pf show "pass_fails ?resume ''X'' j" by simp
  qed
  have hr: "?resume ''X'' 2 = Inr ?events'"
    by (simp add: scripted_resume_def)
  have hp: "processEventsWithStallDetection ?events' = Some (Inr ?pass)"
    by code_simp
  have hyp: "stalled ?result \<and> js_or (threadId ?result) None = Some ''X'' \<and> ''X'' \<noteq> []
          \<and> (1::int) \<le> 2 \<and> (2::int) \<le> 2
          \<and> (\<forall>j. 1 \<le> j \<and> j < 2 \<longrightarrow> pass_fails ?resume ''X'' j)
          \<and> ?resume ''X'' 2 = Inr ?events'
          \<and> processEventsWithStallDetection ?events' = Some (Inr ?pass)
          \<and> \<not> stalled ?pass"
    using before hr hp by (simp add: js_or_def)
  from merged_items
         [where events = ?events and result = ?result and getThreadId = None
            and resume = ?resume and maxRecoveryAttempts = 2 and tid = "''X''" and k = 2
            and events' = ?events' and pass = ?pass, OF h1]
  have "stalled ?result \<and> js_or (threadId ?result) None = Some ''X'' \<and> ''X'' \<noteq> []
          \<and> (1::int) \<le> 2 \<and> (2::int) \<le> 2
          \<and> (\<forall>j. 1 \<le> j \<and> j < 2 \<longrightarrow> pass_fails ?resume ''X'' j)
          \<and> ?resume ''X'' 2 = Inr ?events'
          \<and> processEventsWithStallDetection ?events' = Some (Inr ?pass)
          \<and> \<not> stalled ?pass \<longrightarrow>
        (\<exists>recovery.
            runWithStallRecovery ?events ?resume None 2
            = Some (Inr
                (\<lparr>items = items ?result @ items ?pass, threadId = Some ''X'',
                  finalResponse = finalResponse ?pass, usage = usage ?pass,
                  stalled = False, error = error ?pass\<rparr>,
                 recovery))
          \<and> attempted recovery \<and> recovered recovery \<and> attempts recovery = 2)"
    by (elim conjE)
  from this hyp
  have "\<exists>recovery.
            runWithStallRecovery ?events ?resume None 2
            = Some (Inr
                (\<lparr>items = items ?result @ items ?pass, threadId = Some ''X'',
                  finalResponse = finalResponse ?pass, usage = usage ?pass,
                  stalled = False, error = error ?pass\<rparr>,
                 recovery))
          \<and> attempted recovery \<and> recovered recovery \<and> attempts recovery = 2"
    by (rule mp)
  then have "\<exists>recovery.
         runWithStallRecovery ?events ?resume None 2
         = Some (Inr
             (\<lparr>items = [CommandExecution ''ls'' ''completed'' (Some 0), Reasoning ''b'',
                        AgentMessage ''c''],
               threadId = Some ''X'', finalResponse = ''c'', usage = None, stalled = False,
               error = None\<rparr>,
              recovery))
       \<and> attempted recovery \<and> recovered recovery \<and> attempts recovery = 2"
    by simp
  with h1 pf hp show ?thesis by (intro conjI)
qed

lemma recovery_history_plain:
  "\<not> (stalled result \<and> truthy (js_or (threadId result) getThreadId)) \<Longrightarrow>
   recovery_history result resume getThreadId mx = [initial_recovery]"
  by (auto simp: recovery_history_def Let_def split: option.splits)

lemma recovery_history_recovering:
  "stalled result \<Longrightarrow> js_or (threadId result) getThreadId = Some tid \<Longrightarrow> tid \<noteq> [] \<Longrightarrow>
   recovery_history result resume getThreadId mx
   = initial_recovery # initial_recovery\<lparr>attempted := True\<rparr>
     # recovery_trace resume tid mx 1 (initial_recovery\<lparr>attempted := True\<rparr>)"
  by (simp add: recovery_history_def)

lemma truthy_Some: "truthy x \<Longrightarrow> \<exists>tid. x = Some tid \<and> tid \<noteq> []"
  by (cases x) simp_all

lemma runWithStallRecovery_loop:
  assumes "processEventsWithStallDetection events = Some (Inr result)"
      and "runWithStallRecovery events resume getThreadId mx = Some (Inr (final, recovery))"
      and "stalled result" and "js_or (threadId result) getThreadId = Some tid" and "tid \<noteq> []"
  shows "recovery_loop resume tid mx 1 result (initial_recovery\<lparr>attempted := True\<rparr>)
         = Some (final, recovery)"
proof -
  have "truthy (js_or (threadId result) getThreadId)" using assms(4,5) by simp
  from runWithStallRecovery_recovering [OF assms(1,3) this, of resume mx] assms(2,4)
  have "map_option Inr
          (recovery_loop resume tid mx 1 result (initial_recovery\<lparr>attempted := True\<rparr>))
        = Some (Inr (final, recovery) :: string + event_processing_result \<times> recovery_info)"
    by simp
  then show ?thesis by auto
qed

text \<open>
  Claim C7. \<open>recovery_history\<close> lists the values of the recovery record in the order
  the program produces them. Along it \<open>attempts\<close> never decreases and stays between 0
  and the greater of 0 and \<^verbatim>\<open>maxRecoveryAttempts\<close>, that is within
  \<^verbatim>\<open>maxRecoveryAttempts\<close> for every bound that is not negative; \<open>attempted\<close> never goes
  back from true to false; \<open>recovered\<close> is false in every value but possibly the last,
  so nothing is executed after it has become true. The record returned is the last
  value, and when it has \<open>recovered = True\<close> the attempt numbered \<open>attempts\<close> succeeded
  and every attempt before it failed.
\<close>

theorem recovery_record_monotone:
  "sorted (map attempts (recovery_history result resume getThreadId maxRecoveryAttempts))
   \<and> (\<forall>r\<in>set (recovery_history result resume getThreadId maxRecoveryAttempts).
         0 \<le> attempts r \<and> attempts r \<le> max 0 maxRecoveryAttempts)
   \<and> sorted (map attempted (recovery_history result resume getThreadId maxRecoveryAttempts))
   \<and> (\<forall>r\<in>set (butlast (recovery_history result resume getThreadId maxRecoveryAttempts)).
         \<not> recovered r)
   \<and> (processEventsWithStallDetection events = Some (Inr result)
      \<and> runWithStallRecovery events resume getThreadId maxRecoveryAttempts
          = Some (Inr (final, recovery))
      \<longrightarrow> recovery = last (recovery_history result resume getThreadId maxRecoveryAttempts)
          \<and> (recovered recovery \<longrightarrow>
               (\<exists>tid rr. js_or (threadId result) getThreadId = Some tid
                  \<and> attemptRecovery resume tid (attempts recovery) = Some rr
                  \<and> recoverySuccess rr
                  \<and> (\<forall>j. 1 \<le> j \<and> j < attempts recovery \<longrightarrow>
                        (\<exists>rj. attemptRecovery resume tid j = Some rj
                            \<and> \<not> recoverySuccess rj)))))"
proof (cases "stalled result \<and> truthy (js_or (threadId result) getThreadId)")
  case False
  have h: "recovery_history result resume getThreadId maxRecoveryAttempts = [initial_recovery]"
    by (rule recovery_history_plain [OF False])
  have "recovery = initial_recovery"
    if "processEventsWithStallDetection events = Some (Inr result)"
      and "runWithStallRecovery events resume getThreadId maxRecoveryAttempts
           = Some (Inr (final, recovery))"
    using runWithStallRecovery_plain [OF that(1) False, of resume maxRecoveryAttempts] that(2)
    by simp
  then show ?thesis unfolding h by (auto simp: initial_recovery_def)
next
  case True
  then have st: "stalled result" by simp
  from True truthy_Some obtain tid
    where tid: "js_or (threadId result) getThreadId = Some tid" and ne: "tid \<noteq> []"
    by blast
  let ?start = "initial_recovery\<lparr>attempted := True\<rparr>"
  let ?trace = "recovery_trace resume tid maxRecoveryAttempts 1 ?start"
  have h: "recovery_history result resume getThreadId maxRecoveryAttempts
           = initial_recovery # ?start # ?trace"
    by (rule recovery_history_recovering [OF st tid ne])
  have elems: "1 \<le> attempts r \<and> attempts r \<le> maxRecoveryAttempts \<and> attempted r"
    if "r \<in> set ?trace" for r
    using recovery_trace_elems [OF that] by (simp add: initial_recovery_def)
  have c1: "sorted (map attempts (initial_recovery # ?start # ?trace))"
  proof -
    have "\<forall>n\<in>set (map attempts ?trace). 0 \<le> n" using elems by fastforce
    then show ?thesis
      using recovery_trace_sorted [of resume tid maxRecoveryAttempts 1 ?start]
      by (simp add: initial_recovery_def)
  qed
  have c2: "\<forall>r\<in>set (initial_recovery # ?start # ?trace).
              0 \<le> attempts r \<and> attempts r \<le> max 0 maxRecoveryAttempts"
  proof
    fix r assume "r \<in> set (initial_recovery # ?start # ?trace)"
    then consider "r = initial_recovery" | "r = ?start" | "r \<in> set ?trace" by auto
    then show "0 \<le> attempts r \<and> attempts r \<le> max 0 maxRecoveryAttempts"
    proof cases
      case 1 then show ?thesis by (simp add: initial_recovery_def)
    next
      case 2 then show ?thesis by (simp add: initial_recovery_def)
    next
      case 3 from elems [OF this] show ?thesis by simp
    qed
  qed
  have c3: "sorted (map attempted (initial_recovery # ?start # ?trace))"
  proof -
    have "\<forall>b\<in>set (map attempted ?trace). b" using elems by fastforce
    then have "sorted (map attempted ?trace)"
      by (induction ?trace) (simp_all add: sorted_wrt_iff_nth_less)
    moreover have "\<forall>b\<in>set (map attempted ?trace). True \<le> b \<and> False \<le> b"
      using elems by fastforce
    ultimately show ?thesis by (simp add: initial_recovery_def)
  qed
  have c4: "\<forall>r\<in>set (butlast (initial_recovery # ?start # ?trace)). \<not> recovered r"
  proof
    fix r assume "r \<in> set (butlast (initial_recovery # ?start # ?trace))"
    with set_butlast_Cons2 [of initial_recovery ?start ?trace]
    have "r \<in> {initial_recovery, ?start} \<union> set (butlast ?trace)" by (rule subsetD)
    then consider "r = initial_recovery" | "r = ?start" | "r \<in> set (butlast ?trace)" by blast
    then show "\<not> recovered r"
    proof cases
      case 1 then show ?thesis by (simp add: initial_recovery_def)
    next
      case 2 then show ?thesis by (simp add: initial_recovery_def)
    next
      case 3
      have "\<not> recovered ?start" by (simp add: initial_recovery_def)
      from recovery_trace_recovered [OF this 3] show ?thesis .
    qed
  qed
  have c5: "recovery = last (initial_recovery # ?start # ?trace)
          \<and> (recovered recovery \<longrightarrow>
               (\<exists>tid rr. js_or (threadId result) getThreadId = Some tid
                  \<and> attemptRecovery resume tid (attempts recovery) = Some rr
                  \<and> recoverySuccess rr
                  \<and> (\<forall>j. 1 \<le> j \<and> j < attempts recovery \<longrightarrow>
                        (\<exists>rj. attemptRecovery resume tid j = Some rj
                            \<and> \<not> recoverySuccess rj))))"
    if p: "processEventsWithStallDetection events = Some (Inr result)"
      and r: "runWithStallRecovery events resume getThreadId maxRecoveryAttempts
           = Some (Inr (final, recovery))"
  proof -
    have loop: "recovery_loop resume tid maxRecoveryAttempts 1 result ?start
                = Some (final, recovery)"
      by (rule runWithStallRecovery_loop [OF p r st tid ne])
    from recovery_loop_last [OF loop]
    have l: "recovery = last (initial_recovery # ?start # ?trace)" by simp
    from recovery_loop_result [OF loop]
    consider
      (succ) k rr where "attemptRecovery resume tid k = Some rr" "recoverySuccess rr"
        "\<forall>j. 1 \<le> j \<and> j < k \<longrightarrow>
            (\<exists>rj. attemptRecovery resume tid j = Some rj \<and> \<not> recoverySuccess rj)"
        "attempts recovery = k"
    | (fail) "recovered recovery = recovered ?start"
      by blast
    then have "recovered recovery \<longrightarrow>
               (\<exists>tid rr. js_or (threadId result) getThreadId = Some tid
                  \<and> attemptRecovery resume tid (attempts recovery) = Some rr
                  \<and> recoverySuccess rr
                  \<and> (\<forall>j. 1 \<le> j \<and> j < attempts recovery \<longrightarrow>
                        (\<exists>rj. attemptRecovery resume tid j = Some rj
                            \<and> \<not> recoverySuccess rj)))"
    proof cases
      case succ
      with tid show ?thesis by blast
    next
      case fail
      then show ?thesis by (simp add: initial_recovery_def)
    qed
    with l show ?thesis by simp
  qed
  show ?thesis unfolding h using c1 c2 c3 c4 c5 by blast
qed


theorem recovery_record_monotone_witness:
  "processEventsWithStallDetection
     (script_source [Event (ThreadStarted ''X''), Event (ItemCompleted (Reasoning ''a'')), TimedOut])
   = Some (Inr \<lparr>items = [Reasoning ''a''], threadId = Some ''X'', finalResponse = [],
                usage = None, stalled = True, error = None\<rparr>)
   \<and> runWithStallRecovery
       (script_source [Event (ThreadStarted ''X''), Event (ItemCompleted (Reasoning ''a'')), TimedOut])
       (scripted_resume
          [Inr [TimedOut], Inl ''unreachable host'',
           Inr [Event (ItemCompleted (AgentMessage ''done''))],
           Inr [Event (ItemCompleted (AgentMessage ''not asked for''))]])
       None 4
     = Some (Inr
         (\<lparr>items = [Reasoning ''a'', AgentMessage ''done''], threadId = Some ''X'',
           finalResponse = ''done'', usage = None, stalled = False, error = None\<rparr>,
          \<lparr>attempted = True, attempts = 3, recovered = True,
           lastError = Some ''unreachable host''\<rparr>))
   \<and> recovery_history
       \<lparr>items = [Reasoning ''a''], threadId = Some ''X'', finalResponse = [],
        usage = None, stalled = True, error = None\<rparr>
       (scripted_resume
          [Inr [TimedOut], Inl ''unreachable host'',
           Inr [Event (ItemCompleted (AgentMessage ''done''))],
           Inr [Event (ItemCompleted (AgentMessage ''not asked for''))]])
       None 4
     = [\<lparr>attempted = False, attempts = 0, recovered = False, lastError = None\<rparr>,
        \<lparr>attempted = True, attempts = 0, recovered = False, lastError = None\<rparr>,
        \<lparr>attempted = True, attempts = 1, recovered = False, lastError = None\<rparr>,
        \<lparr>attempted = True, attempts = 1, recovered = False,
         lastError = Some ''Still stalled after recovery attempt''\<rparr>,
        \<lparr>attempted = True, attempts = 2, recovered = False,
         lastError = Some ''Still stalled after recovery attempt''\<rparr>,
        \<lparr>attempted = True, attempts = 2, recovered = False,
         lastError = Some ''unreachable host''\<rparr>,
        \<lparr>attempted = True, attempts = 3, recovered = False,
         lastError = Some ''unreachable host''\<rparr>,
        \<lparr>attempted = True, attempts = 3, recovered = True,
         lastError = Some ''unreachable host''\<rparr>]
   \<and> list_all (\<lambda>r. 0 \<le> attempts r \<and> attempts r \<le> 4)
       (recovery_history
          \<lparr>items = [Reasoning ''a''], threadId = Some ''X'', finalResponse = [],
           usage = None, stalled = True, error = None\<rparr>
          (scripted_resume
             [Inr [TimedOut], Inl ''unreachable host'',
              Inr [Event (ItemCompleted (AgentMessage ''done''))],
              Inr [Event (ItemCompleted (AgentMessage ''not asked for''))]])
          None 4)
   \<and> sorted (map attempts
       (recovery_history
          \<lparr>items = [Reasoning ''a''], threadId = Some ''X'', finalResponse = [],
           usage = None, stalled = True, error = None\<rparr>
          (scripted_resume
             [Inr [TimedOut], Inl ''unreachable host'',
              Inr [Event (ItemCompleted (AgentMessage ''done''))],
              Inr [Event (ItemCompleted (AgentMessage ''not asked for''))]])
          None 4))
   \<and> \<lparr>attempted = True, attempts = 3, recovered = True, lastError = Some ''unreachable host''\<rparr>
     = last (recovery_history
               \<lparr>items = [Reasoning ''a''], threadId = Some ''X'', finalResponse = [],
                usage = None, stalled = True, error = None\<rparr>
               (scripted_resume
                  [Inr [TimedOut], Inl ''unreachable host'',
                   Inr [Event (ItemCompleted (AgentMessage ''done''))],
                   Inr [Event (ItemCompleted (AgentMessage ''not asked for''))]])
               None 4)"
proof -
  let ?events = "script_source
        [Event (ThreadStarted ''X''), Event (ItemCompleted (Reasoning ''a'')), TimedOut]"
  let ?resume = "scripted_resume
          [Inr [TimedOut], Inl ''unreachable host'',
           Inr [Event (ItemCompleted (AgentMessage ''done''))],
           Inr [Event (ItemCompleted (AgentMessage ''not asked for''))]]"
  let ?result = "\<lparr>items = [Reasoning ''a''], threadId = Some ''X'', finalResponse = [],
                usage = None, stalled = True, error = None\<rparr>"
  let ?final = "\<lparr>items = [Reasoning ''a'', AgentMessage ''done''], threadId = Some ''X'',
           finalResponse = ''done'', usage = None, stalled = False, error = None\<rparr>"
  let ?recovery = "\<lparr>attempted = True, attempts = 3, recovered = True,
           lastError = Some ''unreachable host''\<rparr>"
  have h1: "processEventsWithStallDetection ?events = Some (Inr ?result)"
    by code_simp
  have h2: "runWithStallRecovery ?events ?resume None 4 = Some (Inr (?final, ?recovery))"
    by code_simp
  have h3: "recovery_history ?result ?resume None 4
     = [\<lparr>attempted = False, attempts = 0, recovered = False, lastError = None\<rparr>,
        \<lparr>attempted = True, attempts = 0, recovered = False, lastError = None\<rparr>,
        \<lparr>attempted = True, attempts = 1, recovered = False, lastError = None\<rparr>,
        \<lparr>attempted = True, attempts = 1, recovered = False,
         lastError = Some ''Still stalled after recovery attempt''\<rparr>,
        \<lparr>attempted = True, attempts = 2, recovered = False,
         lastError = Some ''Still stalled after recovery attempt''\<rparr>,
        \<lparr>attempted = True, attempts = 2, recovered = False,
         lastError = Some ''unreachable host''\<rparr>,
        \<lparr>attempted = True, attempts = 3, recovered = False,
         lastError = Some ''unreachable host''\<rparr>,
        \<lparr>attempted = True, attempts = 3, recovered = True,
         lastError = Some ''unreachable host''\<rparr>]"
    by code_simp
  note t = recovery_record_monotone
             [where result = ?result and resume = ?resume and getThreadId = None
                and maxRecoveryAttempts = 4 and events = ?events and final = ?final
                and recovery = ?recovery]
  from t have bound: "\<forall>r\<in>set (recovery_history ?result ?resume None 4).
          0 \<le> attempts r \<and> attempts r \<le> max 0 4"
    by (elim conjE)
  then have bound': "list_all (\<lambda>r. 0 \<le> attempts r \<and> attempts r \<le> 4)
                       (recovery_history ?result ?resume None 4)"
    by (simp add: list_all_iff)
  from t have srt: "sorted (map attempts (recovery_history ?result ?resume None 4))"
    by (elim conjE)
  from t h1 h2 have lst: "?recovery = last (recovery_history ?result ?resume None 4)"
    by (elim conjE) blast
  from h1 h2 h3 bound' srt lst show ?thesis by (intro conjI)
qed

end
